theory Spec2Isabelle
  imports Main
begin

section \<open>Data model of \<open>pymatgen/io/abinitio/workflows.py\<close>\<close>

subsection \<open>Statuses, exceptions, nodes\<close>

text \<open>
  Modelled from the spec: the status enum of \<open>Node\<close> (class \<open>Node\<close> lives in
  \<open>tasks.py\<close>, which is not among the sources). Section 4.1 of the specification gives
  the values and their total order
  \<open>S_INIT < S_LOCKED < S_READY < S_SUB < S_RUN < S_DONE < S_ERROR < S_UNCONVERGED < S_OK\<close>.
\<close>

datatype status =
  S_INIT | S_LOCKED | S_READY | S_SUB | S_RUN | S_DONE | S_ERROR | S_UNCONVERGED | S_OK

fun status_rank :: "status \<Rightarrow> nat" where
  "status_rank S_INIT = 0"
| "status_rank S_LOCKED = 1"
| "status_rank S_READY = 2"
| "status_rank S_SUB = 3"
| "status_rank S_RUN = 4"
| "status_rank S_DONE = 5"
| "status_rank S_ERROR = 6"
| "status_rank S_UNCONVERGED = 7"
| "status_rank S_OK = 8"

text \<open>The Python exceptions that the modelled methods raise.\<close>

datatype pyerror =
  NameError string
| AttributeError string
| KeyError string
| ValueError
| AssertionError
| StopIteration
| Exception string

type_synonym node_id = nat

text \<open>
  Task and workflow objects are shared by reference (a \<open>Dependency\<close> points to its upstream
  node), so the statuses live in a store indexed by the node identifier.
\<close>

type_synonym store = "node_id \<Rightarrow> status"

record dependency =
  dep_node :: node_id
  dep_exts :: "string list"

text \<open>
  Attributes that may be absent on the Python object (\<open>hasattr\<close> is tested by the code)
  are optional fields.
\<close>

record node =
  node_id :: node_id
  deps :: "dependency list"
  workdir :: "string option"
  manager :: "string option"

type_synonym strategy = nat

record task = node +
  tot_ncpus :: int
  task_strategy :: strategy

record workflow = node +
  tasks :: "task list"
  indir :: "string option"
  outdir :: "string option"
  tmpdir :: "string option"
  finalized_attr :: "bool option"
  history :: "string list"

datatype call = Start nat | Wait nat

text \<open>
  An \<open>IterativeWorkflow\<close>. The generator object is a producer function together with the
  number of values already pulled; \<open>calls\<close> records the \<open>start\<close> and \<open>wait\<close> calls made
  on the tasks (by index), which are effects on external processes.
\<close>

record iterative_workflow = workflow +
  strategy_generator :: "nat \<Rightarrow> strategy option"
  gen_pos :: nat
  max_niter :: int
  niter :: int
  calls :: "call list"

record callback =
  cb_work :: node_id
  cb_deps :: "dependency list"
  disabled :: bool

record flow =
  flow_workdir :: string
  works :: "workflow list"
  callbacks :: "callback list"

record attrdict =
  returncode :: int
  message :: string

text \<open>
  Modelled from the spec: \<open>Dependency.status\<close> and \<open>Task.deps_status\<close> (\<open>tasks.py\<close> is not
  among the sources): the status of a dependency is the status of its upstream node, and
  \<open>deps_status\<close> lists them in order.
\<close>

definition dep_status :: "store \<Rightarrow> dependency \<Rightarrow> status" where
  "dep_status st d = st (dep_node d)"

definition deps_status :: "store \<Rightarrow> 'a node_scheme \<Rightarrow> status list" where
  "deps_status st n = map (dep_status st) (deps n)"

text \<open>
  Modelled from the spec: \<open>Task.set_status\<close> (\<open>tasks.py\<close>): the transition of section 4.1,
  an assignment of the node's status.
\<close>

definition set_status :: "store \<Rightarrow> 'a node_scheme \<Rightarrow> status \<Rightarrow> store" where
  "set_status st n s = st (node_id n := s)"

subsection \<open>Paths\<close>

text \<open>\<open>os.path.join\<close> of two components (posixpath) and \<open>str\<close> of a non-negative integer.\<close>

definition path_join :: "string \<Rightarrow> string \<Rightarrow> string" where
  "path_join a b =
     (if take 1 b = ''/'' then b
      else if a = [] \<or> last a = CHR ''/'' then a @ b
      else a @ ''/'' @ b)"

definition digit_char :: "nat \<Rightarrow> char" where
  "digit_char d = ''0123456789'' ! d"

fun str_nat :: "nat \<Rightarrow> string" where
  "str_nat n = (if n < 10 then [digit_char n] else str_nat (n div 10) @ [digit_char (n mod 10)])"

declare str_nat.simps [simp del]

subsection \<open>CPU accounting (\<open>BaseWorkflow\<close> lines 126-165, \<open>AbinitFlow\<close> lines 1376-1400)\<close>

definition ncpus_reserved :: "store \<Rightarrow> 'a workflow_scheme \<Rightarrow> int" where
  "ncpus_reserved st w =
     fold (\<lambda>task ncpus. if st (node_id task) = S_SUB then ncpus + tot_ncpus task else ncpus)
       (tasks w) 0"

definition ncpus_allocated :: "store \<Rightarrow> 'a workflow_scheme \<Rightarrow> int" where
  "ncpus_allocated st w =
     fold (\<lambda>task ncpus. if st (node_id task) \<in> set [S_SUB, S_RUN] then ncpus + tot_ncpus task
                        else ncpus)
       (tasks w) 0"

definition ncpus_inuse :: "store \<Rightarrow> 'a workflow_scheme \<Rightarrow> int" where
  "ncpus_inuse st w =
     fold (\<lambda>task ncpus. if st (node_id task) = S_RUN then ncpus + tot_ncpus task else ncpus)
       (tasks w) 0"

text \<open>
  Attribute lookup of one of the CPU properties on a workflow object: the class defines
  exactly the three properties above, any other name raises \<open>AttributeError\<close>.
\<close>

definition work_getattr :: "store \<Rightarrow> workflow \<Rightarrow> string \<Rightarrow> pyerror + int" where
  "work_getattr st work name =
     (if name = ''ncpus_reserved'' then Inr (ncpus_reserved st work)
      else if name = ''ncpus_allocated'' then Inr (ncpus_allocated st work)
      else if name = ''ncpus_inuse'' then Inr (ncpus_inuse st work)
      else Inl (AttributeError name))"

text \<open>\<open>sum\<close> over a generator expression: the first element that raises ends the sum.\<close>

fun py_sum :: "int \<Rightarrow> ('a \<Rightarrow> pyerror + int) \<Rightarrow> 'a list \<Rightarrow> pyerror + int" where
  "py_sum acc f [] = Inr acc"
| "py_sum acc f (x # xs) =
     (case f x of Inl e \<Rightarrow> Inl e | Inr v \<Rightarrow> py_sum (acc + v) f xs)"

definition flow_ncpus_reserved :: "store \<Rightarrow> flow \<Rightarrow> pyerror + int" where
  "flow_ncpus_reserved st f = py_sum 0 (\<lambda>work. work_getattr st work ''ncpus_reverved'') (works f)"

definition flow_ncpus_allocated :: "store \<Rightarrow> flow \<Rightarrow> pyerror + int" where
  "flow_ncpus_allocated st f =
     py_sum 0 (\<lambda>work. work_getattr st work ''ncpus_allocated'') (works f)"

definition flow_ncpus_inuse :: "store \<Rightarrow> flow \<Rightarrow> pyerror + int" where
  "flow_ncpus_inuse st f = py_sum 0 (\<lambda>work. work_getattr st work ''ncpus_inuse'') (works f)"

subsection \<open>Node identifiers (\<open>AbinitFlow.used_ids\<close>, \<open>generate_new_nodeid\<close>, lines 1402-1424)\<close>

text \<open>
  Name resolution: a name is looked up among the local variables of the running function,
  then among the names bound at module level (builtins hold none of the names looked up
  below); an unbound name raises \<open>NameError\<close>. \<open>module_names\<close> lists the names that
  the imports, assignments, classes and functions of \<open>workflows.py\<close> bind at module
  level. A scope gives the local names with the value that the expression at hand reads
  from them (for the assertion of \<open>used_ids\<close>, the length of the container): the locals
  \<open>self\<close>, \<open>work\<close> and \<open>task\<close>, which are not containers, are left out.
\<close>

definition module_names :: "string list" where
  "module_names =
     [''division'', ''print_function'', ''sys'', ''os'', ''shutil'', ''time'', ''abc'',
      ''collections'', ''functools'', ''np'', ''pickle'', ''dispatcher'', ''ArrayWithUnit'',
      ''Ha_to_eV'', ''Lattice'', ''Structure'', ''Enum'', ''AttrDict'', ''MSONable'',
      ''json_pretty_dump'', ''read_structure'', ''iterator_from_slice'', ''chunks'',
      ''monotonic'', ''list_strings'', ''pprint_table'', ''WildCard'', ''Task'',
      ''AbinitTask'', ''Dependency'', ''Node'', ''ScfTask'', ''NscfTask'', ''HaydockBseTask'',
      ''Strategy'', ''File'', ''Directory'', ''ETSF_Reader'', ''Smearing'', ''AbiStructure'',
      ''KSampling'', ''Electrons'', ''Pseudo'', ''ScfStrategy'', ''EOS'',
      ''AbinitTimerParser'', ''logging'', ''logger'', ''__author__'', ''__copyright__'',
      ''__version__'', ''__maintainer__'', ''__all__'', ''WorkflowError'', ''BaseWorkflow'',
      ''Workflow'', ''IterativeWorkflow'', ''check_conv'', ''compute_hints'', ''plot_etotal'',
      ''PseudoConvergence'', ''PseudoIterativeConvergence'', ''BandStructureWorkflow'',
      ''RelaxationWorkflow'', ''DeltaTestWorkflow'', ''GW_Workflow'', ''BSEMDF_Workflow'',
      ''WorkflowResults'', ''AbinitFlow'', ''Callback'']"

definition resolve :: "(string \<times> 'a) list \<Rightarrow> 'a \<Rightarrow> string \<Rightarrow> pyerror + 'a" where
  "resolve locals global name =
     (case map_of locals name of
        Some v \<Rightarrow> Inr v
      | None \<Rightarrow> if name \<in> set module_names then Inr global else Inl (NameError name))"

definition used_ids :: "flow \<Rightarrow> pyerror + node_id set" where
  "used_ids f =
     (let ids = concat (map (\<lambda>work. node_id work # map node_id (tasks work)) (works f));
          used_ids = set ids
      in case resolve [(''ids'', length ids), (''used_ids'', card used_ids)] 0 ''ids_set'' of
           Inl e \<Rightarrow> Inl e
         | Inr len_ids_set \<Rightarrow>
             if len_ids_set = length ids then Inr used_ids else Inl AssertionError)"

partial_function (option) count_from :: "node_id set \<Rightarrow> nat \<Rightarrow> nat option" where
  "count_from used nid = (if nid \<notin> used then Some nid else count_from used (nid + 1))"

definition generate_new_nodeid :: "flow \<Rightarrow> (pyerror + node_id) option" where
  "generate_new_nodeid f =
     (case used_ids f of
        Inl e \<Rightarrow> Some (Inl e)
      | Inr used \<Rightarrow>
          (case resolve [(''used_ids'', ()), (''itertools'', ())] () ''intertools'' of
             Inl e \<Rightarrow> Some (Inl e)
           | Inr _ \<Rightarrow> map_option Inr (count_from used 0)))"

subsection \<open>Status propagation (\<open>Workflow.check_status\<close>, lines 518-527)\<close>

text \<open>
  \<open>task.check_status()\<close> of the first loop belongs to \<open>tasks.py\<close> and consults the external
  runner: it is the parameter \<open>task_check\<close>, an arbitrary update of the store. The second
  loop is the code's.
\<close>

definition run_task_checks ::
  "(task \<Rightarrow> store \<Rightarrow> store) \<Rightarrow> store \<Rightarrow> 'a workflow_scheme \<Rightarrow> store" where
  "run_task_checks task_check st w = fold task_check (tasks w) st"

definition check_status :: "(task \<Rightarrow> store \<Rightarrow> store) \<Rightarrow> store \<Rightarrow> 'a workflow_scheme \<Rightarrow> store" where
  "check_status task_check st w =
     (let st1 = run_task_checks task_check st w
      in fold (\<lambda>task s.
                 if status_rank (s (node_id task)) \<le> status_rank S_SUB
                    \<and> list_all (\<lambda>status. status = S_OK) (deps_status s task)
                 then set_status s task S_READY else s)
           (tasks w) st1)"

text \<open>\<open>Workflow.status\<close>, that is \<open>get_all_status(only_min=True)\<close> (lines 484-516).\<close>

definition min_status :: "status list \<Rightarrow> status" where
  "min_status xs = fold (\<lambda>s m. if status_rank s < status_rank m then s else m) xs S_OK"

definition workflow_status ::
  "(task \<Rightarrow> store \<Rightarrow> store) \<Rightarrow> store \<Rightarrow> 'a workflow_scheme \<Rightarrow> store \<times> status" where
  "workflow_status task_check st w =
     (if length (tasks w) = 0 then (st, S_INIT)
      else let st' = check_status task_check st w
           in (st', min_status (map (\<lambda>task. st' (node_id task)) (tasks w))))"

subsection \<open>Finalization (\<open>BaseWorkflow.on_ok\<close> lines 208-233, \<open>Workflow.finalized\<close> lines 301-308)\<close>

definition finalized :: "'a workflow_scheme \<Rightarrow> bool" where
  "finalized w = (case finalized_attr w of Some b \<Rightarrow> b | None \<Rightarrow> False)"

definition on_all_ok :: "workflow \<Rightarrow> pyerror + attrdict" where
  "on_all_ok w = Inr \<lparr>returncode = 0, message = ''Calling on_all_ok of the base class!''\<rparr>"

text \<open>
  The state a call of \<open>on_ok\<close> works on: the statuses, the workflow object and the signals
  published so far on the dispatcher, as (signal, sender) pairs.
\<close>

record wstate =
  ws_store :: store
  ws_work :: workflow
  ws_bus :: "(status \<times> node_id) list"

text \<open>
  \<open>hook\<close> is the (possibly overridden) \<open>on_all_ok\<close> method, which may raise; \<open>now\<close> is
  \<open>time.asctime()\<close>. The result is what the call returns or raises, with the state it leaves.
\<close>

definition on_ok ::
  "(workflow \<Rightarrow> pyerror + attrdict) \<Rightarrow> (task \<Rightarrow> store \<Rightarrow> store) \<Rightarrow> string \<Rightarrow> wstate \<Rightarrow> node_id
     \<Rightarrow> (pyerror + attrdict) \<times> wstate" where
  "on_ok hook task_check now s sender =
     (let all_ok = list_all (\<lambda>task. ws_store s (node_id task) = S_OK) (tasks (ws_work s))
      in if all_ok then
           if finalized (ws_work s)
           then (Inr \<lparr>returncode = 0, message = ''Workflow has been already finalized''\<rparr>, s)
           else (case hook (ws_work s) of
                   Inl e \<Rightarrow> (Inl e, s)
                 | Inr results \<Rightarrow>
                     let w1 = (ws_work s)\<lparr>finalized_attr := Some True\<rparr>;
                         st1 = fst (workflow_status task_check (ws_store s) w1);
                         bus1 = ws_bus s @ [(S_OK, node_id w1)];
                         w2 = w1\<lparr>history := history w1 @ [''Finalized on '' @ now]\<rparr>
                     in (Inr results, \<lparr>ws_store = st1, ws_work = w2, ws_bus = bus1\<rparr>))
         else (Inr \<lparr>returncode = 1, message = ''Not all tasks are OK!''\<rparr>, s))"

text \<open>
  The life of a workflow as seen by \<open>on_ok\<close>: calls of \<open>on_ok\<close> interleaved with arbitrary
  changes of the statuses by the rest of the program.
\<close>

datatype event = OnOk node_id | Env "store \<Rightarrow> store"

fun run_events ::
  "(workflow \<Rightarrow> pyerror + attrdict) \<Rightarrow> (task \<Rightarrow> store \<Rightarrow> store) \<Rightarrow> string \<Rightarrow> wstate \<Rightarrow> event list
     \<Rightarrow> wstate" where
  "run_events hook task_check now s [] = s"
| "run_events hook task_check now s (OnOk sender # evs) =
     run_events hook task_check now (snd (on_ok hook task_check now s sender)) evs"
| "run_events hook task_check now s (Env f # evs) =
     run_events hook task_check now (s\<lparr>ws_store := f (ws_store s)\<rparr>) evs"

definition published :: "wstate \<Rightarrow> nat" where
  "published s = length (filter (\<lambda>p. p = (S_OK, node_id (ws_work s))) (ws_bus s))"

subsection \<open>Scheduling (\<open>BaseWorkflow.fetch_task_to_run\<close>, lines 167-190)\<close>

text \<open>
  Modelled from the spec: \<open>Task.is_completed\<close> (\<open>tasks.py\<close> is not among the sources).
  Section 4.2: AllDone is raised if every task "has reached a terminal state \<open>\<ge> S_DONE\<close> with
  all at \<open>S_OK\<close>".
\<close>

definition is_completed :: "store \<Rightarrow> task \<Rightarrow> bool" where
  "is_completed st task \<longleftrightarrow>
     status_rank S_DONE \<le> status_rank (st (node_id task)) \<and> st (node_id task) = S_OK"

text \<open>
  Modelled from the spec: \<open>Task.can_run\<close> (\<open>tasks.py\<close> is not among the sources).
  Section 4.2: a task is returned when its "status \<open>== S_READY\<close> and all deps [are] at \<open>S_OK\<close>".
\<close>

definition can_run :: "store \<Rightarrow> task \<Rightarrow> bool" where
  "can_run st task \<longleftrightarrow>
     st (node_id task) = S_READY \<and> list_all (\<lambda>status. status = S_OK) (deps_status st task)"

text \<open>The result is the exception raised, or the value returned with the warnings logged.\<close>

definition fetch_task_to_run :: "store \<Rightarrow> 'a workflow_scheme \<Rightarrow> pyerror + (task option \<times> string list)" where
  "fetch_task_to_run st w =
     (if list_all (is_completed st) (tasks w) then Inl StopIteration
      else case find (can_run st) (tasks w) of
             Some task \<Rightarrow> Inr (Some task, [])
           | None \<Rightarrow> Inr (None, [''Possible deadlock in fetch_task_to_run!'']))"

subsection \<open>Working directories (\<open>Workflow.set_workdir\<close> lines 316-330, \<open>allocate\<close> lines 399-411)\<close>

text \<open>\<open>os.path.abspath\<close> depends on the process's current directory: it is a parameter.\<close>

definition set_workdir ::
  "(string \<Rightarrow> string) \<Rightarrow> 'a workflow_scheme \<Rightarrow> string \<Rightarrow> pyerror + 'a workflow_scheme" where
  "set_workdir abspath w wd =
     (if workdir w \<noteq> None \<and> workdir w \<noteq> Some wd then Inl ValueError
      else let d = abspath wd
           in Inr (w\<lparr>workdir := Some d,
                     indir := Some (path_join d ''indata''),
                     outdir := Some (path_join d ''outdata''),
                     tmpdir := Some (path_join d ''tmpdata'')\<rparr>))"

text \<open>
  Modelled from the spec: \<open>Task.set_manager\<close> and \<open>Task.set_workdir\<close> (\<open>tasks.py\<close>):
  section 4.2, "assign the workflow's manager and canonical per-task workdir".

  The loop of \<open>allocate\<close> mutates the tasks in place, so the tasks are returned also when an
  exception ends the loop. Reading \<open>self.manager\<close> or \<open>self.workdir\<close> on a workflow that has
  none raises \<open>AttributeError\<close>.
\<close>

definition task_set_manager :: "task \<Rightarrow> string \<Rightarrow> task" where
  "task_set_manager task m = task\<lparr>manager := Some m\<rparr>"

definition task_set_workdir :: "task \<Rightarrow> string \<Rightarrow> task" where
  "task_set_workdir task d = task\<lparr>workdir := Some d\<rparr>"

fun allocate_tasks ::
  "string option \<Rightarrow> string option \<Rightarrow> nat \<Rightarrow> task list \<Rightarrow> pyerror option \<times> task list" where
  "allocate_tasks mgr wd i [] = (None, [])"
| "allocate_tasks mgr wd i (task # rest) =
     (case (if manager task = None
            then (case mgr of None \<Rightarrow> Inl (AttributeError ''manager'')
                  | Some m \<Rightarrow> Inr (task_set_manager task m))
            else Inr task) of
        Inl e \<Rightarrow> (Some e, task # rest)
      | Inr t1 \<Rightarrow>
          (case wd of
             None \<Rightarrow> (Some (AttributeError ''workdir''), t1 # rest)
           | Some d \<Rightarrow>
               let task_workdir = path_join d (''task_'' @ str_nat i)
               in (case workdir t1 of
                     None \<Rightarrow>
                       (let r = allocate_tasks mgr wd (i + 1) rest
                        in (fst r, task_set_workdir t1 task_workdir # snd r))
                   | Some twd \<Rightarrow>
                       if twd \<noteq> task_workdir then (Some ValueError, t1 # rest)
                       else (let r = allocate_tasks mgr wd (i + 1) rest
                             in (fst r, t1 # snd r)))))"

definition allocate :: "'a workflow_scheme \<Rightarrow> pyerror option \<times> 'a workflow_scheme" where
  "allocate w =
     (let r = allocate_tasks (manager w) (workdir w) 0 (tasks w)
      in (fst r, w\<lparr>tasks := snd r\<rparr>))"

subsection \<open>Persistence (\<open>AbinitFlow.pickle_dump\<close>, lines 1439-1444)\<close>

text \<open>
  The file system maps a path to the bytes visible under it. \<open>open(filepath, "wb")\<close> creates
  the file or truncates it to length zero; \<open>pickle.dump\<close> then writes the blob \<open>data\<close> (the
  pickled flow) through the handle, and leaving the \<open>with\<close> block closes it.
  \<open>pickle_dump_states\<close> lists the file systems visible after each of the two steps; an
  interruption between them leaves the first one.
\<close>

type_synonym filesystem = "string \<rightharpoonup> string"

definition PICKLE_FNAME :: string where
  "PICKLE_FNAME = ''__workflow__.pickle''"

definition open_w :: "filesystem \<Rightarrow> string \<Rightarrow> filesystem" where
  "open_w fs filepath = fs (filepath \<mapsto> [])"

definition write_bytes :: "filesystem \<Rightarrow> string \<Rightarrow> string \<Rightarrow> filesystem" where
  "write_bytes fs filepath data =
     fs (filepath \<mapsto> (case fs filepath of None \<Rightarrow> data | Some old \<Rightarrow> old @ data))"

definition pickle_dump_states :: "string \<Rightarrow> flow \<Rightarrow> filesystem \<Rightarrow> filesystem list" where
  "pickle_dump_states data f fs =
     (let filepath = path_join (flow_workdir f) PICKLE_FNAME;
          fs1 = open_w fs filepath;
          fs2 = write_bytes fs1 filepath data
      in [fs1, fs2])"

definition pickle_dump :: "string \<Rightarrow> flow \<Rightarrow> filesystem \<Rightarrow> filesystem" where
  "pickle_dump data f fs = last (pickle_dump_states data f fs)"

subsection \<open>Callbacks (\<open>Callback\<close> lines 1622-1668, \<open>AbinitFlow.on_dep_ok\<close> lines 1568-1595)\<close>

text \<open>
  \<open>can_execute\<close> returns the value of \<open>not self._disabled and [...]\<close>: \<open>False\<close> when the
  callback is disabled, else the list of comparisons itself. Python takes a list for true
  exactly when it is not empty.
\<close>

datatype pyval = PyBool bool | PyList "bool list"

fun truthy :: "pyval \<Rightarrow> bool" where
  "truthy (PyBool b) = b"
| "truthy (PyList xs) = (xs \<noteq> [])"

definition can_execute :: "store \<Rightarrow> callback \<Rightarrow> pyval" where
  "can_execute st cbk =
     (if \<not> disabled cbk then PyList (map (\<lambda>dep. dep_status st dep = S_OK) (cb_deps cbk))
      else PyBool False)"

definition handle_sender :: "callback \<Rightarrow> node_id \<Rightarrow> bool" where
  "handle_sender cbk sender \<longleftrightarrow> sender \<in> set (map dep_node (cb_deps cbk))"

definition disable :: "callback \<Rightarrow> callback" where
  "disable cbk = cbk\<lparr>disabled := True\<rparr>"

text \<open>
  What a dispatch does, in order: \<open>Invoked i\<close> when the user function of callback \<open>i\<close> is
  called, \<open>Dumped\<close> when the flow is pickled. \<open>func i\<close> is the exception the user function of
  callback \<open>i\<close> raises, if any. What the user function does to the workflow it is given,
  and \<open>work.add_deps(cbk.deps)\<close> on the workflow it returns, are outside the model.
\<close>

datatype cb_event = Invoked nat | Dumped

definition callback_call ::
  "(nat \<Rightarrow> pyerror option) \<Rightarrow> store \<Rightarrow> nat \<Rightarrow> callback \<Rightarrow> cb_event list \<times> pyerror option" where
  "callback_call func st i cbk =
     (if truthy (can_execute st cbk) then ([Invoked i], func i)
      else ([], Some (Exception ''Cannot execute'')))"

fun on_dep_ok_loop ::
  "(nat \<Rightarrow> pyerror option) \<Rightarrow> store \<Rightarrow> node_id \<Rightarrow> nat \<Rightarrow> callback list
     \<Rightarrow> pyerror option \<times> callback list \<times> cb_event list" where
  "on_dep_ok_loop func st sender i [] = (None, [], [])"
| "on_dep_ok_loop func st sender i (cbk # rest) =
     (if \<not> handle_sender cbk sender then
        (let r = on_dep_ok_loop func st sender (i + 1) rest
         in (fst r, cbk # fst (snd r), snd (snd r)))
      else if \<not> truthy (can_execute st cbk) then
        (let r = on_dep_ok_loop func st sender (i + 1) rest
         in (fst r, cbk # fst (snd r), snd (snd r)))
      else
        (case callback_call func st i cbk of
           (evs, Some e) \<Rightarrow> (Some e, cbk # rest, evs)
         | (evs, None) \<Rightarrow>
             (let r = on_dep_ok_loop func st sender (i + 1) rest
              in (fst r, disable cbk # fst (snd r), evs @ [Dumped] @ snd (snd r)))))"

definition on_dep_ok ::
  "(nat \<Rightarrow> pyerror option) \<Rightarrow> store \<Rightarrow> flow \<Rightarrow> status \<Rightarrow> node_id
     \<Rightarrow> pyerror option \<times> flow \<times> cb_event list" where
  "on_dep_ok func st f signal sender =
     (let r = on_dep_ok_loop func st sender 0 (callbacks f)
      in (fst r, f\<lparr>callbacks := fst (snd r)\<rparr>, snd (snd r)))"

subsection \<open>Iterative workflows (\<open>IterativeWorkflow\<close>, lines 673-720; \<open>Workflow.register\<close>, lines 414-458)\<close>

text \<open>
  \<open>task_class\<close> is the constructor of the task class (\<open>tasks.py\<close>), called with the strategy,
  the task's working directory and the manager. \<open>register\<close> is modelled for a \<open>Strategy\<close>
  argument without dependencies, as \<open>next_task\<close> calls it.
\<close>

definition register ::
  "(strategy \<Rightarrow> string option \<Rightarrow> string option \<Rightarrow> task) \<Rightarrow> 'a workflow_scheme \<Rightarrow> strategy
     \<Rightarrow> 'a workflow_scheme" where
  "register task_class w obj =
     (let task_workdir =
            (case workdir w of None \<Rightarrow> None
             | Some d \<Rightarrow> Some (path_join d (''task_'' @ str_nat (length (tasks w)))));
          task = task_class obj task_workdir None
      in w\<lparr>tasks := tasks w @ [task]\<rparr>)"

definition next_task ::
  "(strategy \<Rightarrow> string option \<Rightarrow> string option \<Rightarrow> task) \<Rightarrow> iterative_workflow
     \<Rightarrow> pyerror option \<times> iterative_workflow" where
  "next_task task_class w =
     (case strategy_generator w (gen_pos w) of
        None \<Rightarrow> (Some StopIteration, w)
      | Some next_strategy \<Rightarrow>
          (let w1 = register task_class (w\<lparr>gen_pos := gen_pos w + 1\<rparr>) next_strategy
           in if int (length (tasks w1)) = niter w1 then (None, w1)
              else (Some AssertionError, w1)))"

text \<open>
  \<open>exit_iteration\<close> is the abstract hook; it returns a dictionary, of which the loop reads
  the entry \<open>"exit"\<close>. The loop may run forever, so it is given fuel: \<open>None\<close> means that the
  fuel did not suffice; otherwise the result is the exception raised, if any, with the
  workflow as the call leaves it.
\<close>

fun submit_loop ::
  "nat \<Rightarrow> (strategy \<Rightarrow> string option \<Rightarrow> string option \<Rightarrow> task)
     \<Rightarrow> (iterative_workflow \<Rightarrow> string \<rightharpoonup> bool) \<Rightarrow> iterative_workflow
     \<Rightarrow> (pyerror option \<times> iterative_workflow) option" where
  "submit_loop 0 task_class exit_iteration w = None"
| "submit_loop (Suc fuel) task_class exit_iteration w =
     (if niter w > max_niter w \<and> max_niter w > 0 then Some (None, w)
      else (case next_task task_class w of
              (Some StopIteration, w1) \<Rightarrow> Some (None, w1)
            | (Some e, w1) \<Rightarrow> Some (Some e, w1)
            | (None, w1) \<Rightarrow>
                (let i = length (tasks w1) - 1;
                     w2 = w1\<lparr>calls := calls w1 @ [Start i, Wait i]\<rparr>
                 in (case exit_iteration w2 ''exit'' of
                       None \<Rightarrow> Some (Some (KeyError ''exit''), w2)
                     | Some ex \<Rightarrow>
                         if ex then Some (None, w2)
                         else submit_loop fuel task_class exit_iteration
                                (w2\<lparr>niter := niter w2 + 1\<rparr>)))))"

definition submit_tasks ::
  "nat \<Rightarrow> (strategy \<Rightarrow> string option \<Rightarrow> string option \<Rightarrow> task)
     \<Rightarrow> (iterative_workflow \<Rightarrow> string \<rightharpoonup> bool) \<Rightarrow> iterative_workflow
     \<Rightarrow> (pyerror option \<times> iterative_workflow) option" where
  "submit_tasks fuel task_class exit_iteration w =
     submit_loop fuel task_class exit_iteration (w\<lparr>niter := 1\<rparr>)"


subsection \<open>Auxiliary predicates\<close>

text \<open>Every task of the workflow is at \<open>S_OK\<close>, as \<open>on_ok\<close> computes it.\<close>

definition all_ok :: "wstate \<Rightarrow> bool" where
  "all_ok s \<longleftrightarrow> list_all (\<lambda>task. ws_store s (node_id task) = S_OK) (tasks (ws_work s))"

text \<open>The condition under which a call of \<open>on_ok\<close> reaches \<open>dispatcher.send\<close>.\<close>

definition fires :: "(workflow \<Rightarrow> pyerror + attrdict) \<Rightarrow> wstate \<Rightarrow> bool" where
  "fires hook s \<longleftrightarrow> all_ok s \<and> \<not> finalized (ws_work s) \<and> \<not> isl (hook (ws_work s))"

text \<open>The call returned a result whose return code is not zero.\<close>

definition returns_nonzero :: "pyerror + attrdict \<Rightarrow> bool" where
  "returns_nonzero r = (case r of Inl e \<Rightarrow> False | Inr d \<Rightarrow> returncode d \<noteq> 0)"

text \<open>The test of the second loop of \<open>Workflow.check_status\<close>.\<close>

definition promotable :: "store \<Rightarrow> task \<Rightarrow> bool" where
  "promotable s task \<longleftrightarrow>
     status_rank (s (node_id task)) \<le> status_rank S_SUB
     \<and> list_all (\<lambda>status. status = S_OK) (deps_status s task)"

text \<open>The canonical working directory of task \<open>i\<close>, as \<open>allocate\<close> computes it.\<close>

definition task_workdir_of :: "string \<Rightarrow> nat \<Rightarrow> string" where
  "task_workdir_of d i = path_join d (''task_'' @ str_nat i)"

text \<open>
  The workflow after \<open>next_task\<close> has registered a task for the strategy \<open>s\<close>, and after
  the body of one iteration of \<open>submit_tasks\<close> (before the exit test).
\<close>

definition registered ::
  "(strategy \<Rightarrow> string option \<Rightarrow> string option \<Rightarrow> task) \<Rightarrow> iterative_workflow \<Rightarrow> strategy
     \<Rightarrow> iterative_workflow" where
  "registered task_class w s = register task_class (w\<lparr>gen_pos := gen_pos w + 1\<rparr>) s"

definition iteration ::
  "(strategy \<Rightarrow> string option \<Rightarrow> string option \<Rightarrow> task) \<Rightarrow> iterative_workflow \<Rightarrow> strategy
     \<Rightarrow> iterative_workflow" where
  "iteration task_class w s =
     (registered task_class w s)
       \<lparr>calls := calls w @ [Start (length (tasks w)), Wait (length (tasks w))]\<rparr>"

text \<open>
  The task that the iteration number \<open>i\<close> (counted from 0) of a run started on \<open>w\<close>
  registers, and the calls that a run makes on the \<open>k\<close> tasks it registers from index \<open>n\<close>.
\<close>

definition new_task ::
  "(strategy \<Rightarrow> string option \<Rightarrow> string option \<Rightarrow> task) \<Rightarrow> iterative_workflow \<Rightarrow> nat \<Rightarrow> task" where
  "new_task task_class w i =
     task_class (the (strategy_generator w (gen_pos w + i)))
       (map_option (\<lambda>d. task_workdir_of d (length (tasks w) + i)) (workdir w))
       None"

definition task_calls :: "nat \<Rightarrow> nat \<Rightarrow> call list" where
  "task_calls n k = concat (map (\<lambda>i. [Start i, Wait i]) [n..<n + k])"

text \<open>
  The workflow on which \<open>exit_iteration\<close> is called in the iteration number \<open>i\<close> (counted
  from 0) of a run started on \<open>w\<close>, when the run gets that far.
\<close>

fun exit_state ::
  "(strategy \<Rightarrow> string option \<Rightarrow> string option \<Rightarrow> task) \<Rightarrow> iterative_workflow \<Rightarrow> nat
     \<Rightarrow> iterative_workflow" where
  "exit_state task_class w 0 = iteration task_class w (the (strategy_generator w (gen_pos w)))"
| "exit_state task_class w (Suc i) =
     exit_state task_class
       ((iteration task_class w (the (strategy_generator w (gen_pos w))))\<lparr>niter := niter w + 1\<rparr>) i"

subsection \<open>Concrete flows\<close>

definition task_a :: task where
  "task_a = \<lparr>node_id = 2, deps = [], workdir = None, manager = None, tot_ncpus = 4,
             task_strategy = 0\<rparr>"

definition task_b :: task where
  "task_b = \<lparr>node_id = 3, deps = [\<lparr>dep_node = 2, dep_exts = [''DEN'']\<rparr>], workdir = None,
             manager = None, tot_ncpus = 2, task_strategy = 1\<rparr>"

definition work_a :: workflow where
  "work_a = \<lparr>node_id = 1, deps = [], workdir = None, manager = None, tasks = [task_a],
             indir = None, outdir = None, tmpdir = None, finalized_attr = None, history = []\<rparr>"

definition work_ab :: workflow where
  "work_ab = \<lparr>node_id = 1, deps = [], workdir = None, manager = None, tasks = [task_a, task_b],
              indir = None, outdir = None, tmpdir = None, finalized_attr = None, history = []\<rparr>"

definition flow_a :: flow where
  "flow_a = \<lparr>flow_workdir = ''/w'', works = [work_a], callbacks = []\<rparr>"

definition wstate_a :: wstate where
  "wstate_a = \<lparr>ws_store = (\<lambda>_. S_OK), ws_work = work_a, ws_bus = []\<rparr>"

definition wstate_fin :: wstate where
  "wstate_fin = wstate_a\<lparr>ws_work := work_a\<lparr>finalized_attr := Some True\<rparr>, ws_bus := [(S_OK, 1)]\<rparr>"

definition wstate_run :: wstate where
  "wstate_run = wstate_a\<lparr>ws_store := (\<lambda>_. S_RUN)\<rparr>"

definition failing_hook :: "workflow \<Rightarrow> pyerror + attrdict" where
  "failing_hook w = Inl (Exception ''on_all_ok failed'')"

definition no_check :: "task \<Rightarrow> store \<Rightarrow> store" where
  "no_check task st = st"

definition store_ab :: store where
  "store_ab = (\<lambda>_. S_INIT)(2 := S_OK, 3 := S_READY)"

definition store_err :: store where
  "store_err = (\<lambda>_. S_INIT)(2 := S_ERROR)"

text \<open>A callback waiting for nodes 1 and 2, of which only node 1 has reached \<open>S_OK\<close>.\<close>

definition cbk_a :: callback where
  "cbk_a = \<lparr>cb_work = 3,
            cb_deps = [\<lparr>dep_node = 1, dep_exts = [''WFK'']\<rparr>, \<lparr>dep_node = 2, dep_exts = [''DEN'']\<rparr>],
            disabled = False\<rparr>"

definition flow_c :: flow where
  "flow_c = \<lparr>flow_workdir = ''/w'', works = [], callbacks = [cbk_a]\<rparr>"

definition store_c :: store where
  "store_c = (\<lambda>_. S_INIT)(1 := S_OK)"

text \<open>A flow whose working directory already holds a snapshot.\<close>

definition flow_p :: flow where
  "flow_p = \<lparr>flow_workdir = ''/w'', works = [], callbacks = []\<rparr>"

definition fs_p :: filesystem where
  "fs_p = [''/w/__workflow__.pickle'' \<mapsto> ''old snapshot'']"

text \<open>
  An \<open>abspath\<close> for a process whose current directory is \<open>/cwd\<close> (on paths without
  \<open>.\<close>, \<open>..\<close> or doubled separators), and workflows with working directories.
\<close>

definition abspath_cwd :: "string \<Rightarrow> string" where
  "abspath_cwd p = (if take 1 p = ''/'' then p else ''/cwd/'' @ p)"

definition work_d :: workflow where
  "work_d = \<lparr>node_id = 1, deps = [], workdir = Some ''/w/work_0'', manager = Some ''shell'',
             tasks = [task_a, task_b\<lparr>workdir := Some ''/w/work_0/task_1''\<rparr>],
             indir = Some ''/w/work_0/indata'', outdir = Some ''/w/work_0/outdata'',
             tmpdir = Some ''/w/work_0/tmpdata'', finalized_attr = None, history = []\<rparr>"

definition work_e :: workflow where
  "work_e = work_d\<lparr>tasks := [task_a, task_b\<lparr>workdir := Some ''/elsewhere/task_1''\<rparr>]\<rparr>"

text \<open>
  Iterative workflows: a task constructor, an endless producer, an exit hook that says
  \<open>exit\<close> on iteration 3, one that never does, and a producer of two strategies.
\<close>

definition task_of :: "strategy \<Rightarrow> string option \<Rightarrow> string option \<Rightarrow> task" where
  "task_of s wd m = \<lparr>node_id = 10 + s, deps = [], workdir = wd, manager = m, tot_ncpus = 1,
                     task_strategy = s\<rparr>"

definition iw_e4 :: iterative_workflow where
  "iw_e4 = \<lparr>node_id = 1, deps = [], workdir = None, manager = None, tasks = [],
            indir = None, outdir = None, tmpdir = None, finalized_attr = None, history = [],
            strategy_generator = (\<lambda>i. Some i), gen_pos = 0, max_niter = 5, niter = 0,
            calls = []\<rparr>"

definition exit_at_3 :: "iterative_workflow \<Rightarrow> string \<rightharpoonup> bool" where
  "exit_at_3 w = [''exit'' \<mapsto> (niter w = 3)]"

definition never_exit :: "iterative_workflow \<Rightarrow> string \<rightharpoonup> bool" where
  "never_exit w = [''exit'' \<mapsto> False]"

definition iw_two :: iterative_workflow where
  "iw_two = iw_e4\<lparr>strategy_generator := (\<lambda>i. if i < 2 then Some i else None), max_niter := 0\<rparr>"

text \<open>An iterative workflow that already holds a task when \<open>submit_tasks\<close> is called.\<close>

definition iw_busy :: iterative_workflow where
  "iw_busy = iw_e4\<lparr>tasks := [task_a]\<rparr>"

section \<open>Properties\<close>

lemmas inst_defs = task_a_def task_b_def work_a_def work_ab_def flow_a_def wstate_a_def
  wstate_fin_def wstate_run_def no_check_def

subsection \<open>Node identifiers\<close>

text \<open>
  C10: for every flow, also one without workflows, \<open>used_ids\<close> raises \<open>NameError\<close> for the
  unbound name \<open>ids_set\<close> of its assertion; \<open>generate_new_nodeid\<close> calls \<open>used_ids\<close> first,
  so it raises the same error and returns no identifier; the name \<open>intertools\<close> that it
  uses afterwards is unbound too.
\<close>

theorem used_ids_raises_NameError:
  "used_ids f = Inl (NameError ''ids_set'')
   \<and> generate_new_nodeid f = Some (Inl (NameError ''ids_set''))
   \<and> resolve [(''used_ids'', ()), (''itertools'', ())] () ''intertools''
        = Inl (NameError ''intertools'')"
  by (simp add: used_ids_def generate_new_nodeid_def resolve_def module_names_def Let_def)

subsection \<open>CPU accounting\<close>

lemma fold_cond_sum:
  "fold (\<lambda>task ncpus. if P task then ncpus + tot_ncpus task else ncpus) ts acc
     = acc + sum_list (map tot_ncpus (filter P ts))"
  by (induction ts arbitrary: acc) auto

lemma ncpus_reserved_sum:
  "ncpus_reserved st w
     = sum_list (map tot_ncpus (filter (\<lambda>t. st (node_id t) = S_SUB) (tasks w)))"
  by (simp add: ncpus_reserved_def fold_cond_sum)

lemma ncpus_allocated_sum:
  "ncpus_allocated st w
     = sum_list (map tot_ncpus
         (filter (\<lambda>t. st (node_id t) = S_SUB \<or> st (node_id t) = S_RUN) (tasks w)))"
  by (simp add: ncpus_allocated_def fold_cond_sum)

lemma ncpus_inuse_sum:
  "ncpus_inuse st w
     = sum_list (map tot_ncpus (filter (\<lambda>t. st (node_id t) = S_RUN) (tasks w)))"
  by (simp add: ncpus_inuse_def fold_cond_sum)

lemma py_sum_allocated:
  "py_sum acc (\<lambda>work. work_getattr st work ''ncpus_allocated'') ws
     = Inr (acc + sum_list (map (ncpus_allocated st) ws))"
  by (induction ws arbitrary: acc) (simp_all add: work_getattr_def)

lemma py_sum_inuse:
  "py_sum acc (\<lambda>work. work_getattr st work ''ncpus_inuse'') ws
     = Inr (acc + sum_list (map (ncpus_inuse st) ws))"
  by (induction ws arbitrary: acc) (simp_all add: work_getattr_def)

lemma flow_ncpus_allocated_sum:
  "flow_ncpus_allocated st f = Inr (sum_list (map (ncpus_allocated st) (works f)))"
  by (simp add: flow_ncpus_allocated_def py_sum_allocated)

lemma flow_ncpus_inuse_sum:
  "flow_ncpus_inuse st f = Inr (sum_list (map (ncpus_inuse st) (works f)))"
  by (simp add: flow_ncpus_inuse_def py_sum_inuse)

lemma flow_ncpus_reserved_nonempty:
  "works f \<noteq> [] \<Longrightarrow> flow_ncpus_reserved st f = Inl (AttributeError ''ncpus_reverved'')"
  by (cases "works f") (simp_all add: flow_ncpus_reserved_def work_getattr_def)

text \<open>
  C9: the flow-level \<open>ncpus_reserved\<close> should be the sum of the per-workflow values. On the
  flow \<open>flow_a\<close>, whose only workflow holds one submitted task that requests 4 CPUs, the
  workflow reports 4 reserved CPUs, and the flow-level query raises \<open>AttributeError\<close>: it
  reads the attribute \<open>ncpus_reverved\<close>, which no workflow has.
\<close>

theorem flow_ncpus_reserved_raises:
  "ncpus_reserved (\<lambda>_. S_SUB) work_a = 4
   \<and> flow_ncpus_reserved (\<lambda>_. S_SUB) flow_a = Inl (AttributeError ''ncpus_reverved'')"
  by (simp add: flow_ncpus_reserved_def work_getattr_def ncpus_reserved_def inst_defs)

subsection \<open>Callbacks\<close>

lemma can_execute_ignores_statuses:
  "handle_sender cbk sender \<Longrightarrow> truthy (can_execute st cbk) = (\<not> disabled cbk)"
  by (auto simp: handle_sender_def can_execute_def)

text \<open>
  C1: a callback should not be invoked while one of its dependencies is not at \<open>S_OK\<close>. In
  \<open>flow_c\<close> the callback waits for nodes 1 and 2; node 1 sends \<open>S_OK\<close> while node 2 is still
  at \<open>S_INIT\<close>. The dispatch invokes the callback, disables it and pickles the flow:
  \<open>can_execute\<close> returns the list of comparisons, which is true as soon as it is not empty.
\<close>

theorem on_dep_ok_invokes_with_pending_dep:
  "handle_sender cbk_a 1 \<and> \<not> disabled cbk_a
   \<and> dep_status store_c \<lparr>dep_node = 2, dep_exts = [''DEN'']\<rparr> = S_INIT
   \<and> on_dep_ok (\<lambda>_. None) store_c flow_c S_OK 1
       = (None, flow_c\<lparr>callbacks := [disable cbk_a]\<rparr>, [Invoked 0, Dumped])"
  by (simp add: on_dep_ok_def flow_c_def cbk_a_def store_c_def handle_sender_def can_execute_def
      callback_call_def dep_status_def disable_def)

subsection \<open>Persistence\<close>

text \<open>
  C3: an interrupted dump should never leave a truncated file under the canonical name.
  \<open>flow_p\<close> has a snapshot \<open>/w/__workflow__.pickle\<close>; the first step of \<open>pickle_dump\<close> opens
  that very file for writing, so that between the two steps the canonical name shows an
  empty file, which is neither the old snapshot nor the new one.
\<close>

theorem pickle_dump_truncates_canonical_file:
  "path_join (flow_workdir flow_p) PICKLE_FNAME = ''/w/__workflow__.pickle''
   \<and> fs_p ''/w/__workflow__.pickle'' = Some ''old snapshot''
   \<and> hd (pickle_dump_states ''new snapshot'' flow_p fs_p) ''/w/__workflow__.pickle'' = Some []
   \<and> pickle_dump ''new snapshot'' flow_p fs_p ''/w/__workflow__.pickle'' = Some ''new snapshot''"
  by (simp add: pickle_dump_def pickle_dump_states_def flow_p_def fs_p_def path_join_def
      PICKLE_FNAME_def open_w_def write_bytes_def Let_def)

subsection \<open>Finalization\<close>

lemma on_ok_cases:
  "on_ok hook tc now s sender =
     (if all_ok s then
        if finalized (ws_work s)
        then (Inr \<lparr>returncode = 0, message = ''Workflow has been already finalized''\<rparr>, s)
        else (case hook (ws_work s) of
                Inl e \<Rightarrow> (Inl e, s)
              | Inr results \<Rightarrow>
                  (Inr results,
                   \<lparr>ws_store = fst (workflow_status tc (ws_store s)
                                      ((ws_work s)\<lparr>finalized_attr := Some True\<rparr>)),
                    ws_work = (ws_work s)\<lparr>finalized_attr := Some True,
                                history := history (ws_work s) @ [''Finalized on '' @ now]\<rparr>,
                    ws_bus = ws_bus s @ [(S_OK, node_id (ws_work s))]\<rparr>))
      else (Inr \<lparr>returncode = 1, message = ''Not all tasks are OK!''\<rparr>, s))"
  by (simp add: on_ok_def all_ok_def Let_def split: sum.splits)

lemma on_ok_published:
  "published (snd (on_ok hook tc now s sender)) = published s + (if fires hook s then 1 else 0)"
  by (auto simp: on_ok_cases published_def fires_def split: sum.splits)

lemma on_ok_finalized:
  "finalized (ws_work (snd (on_ok hook tc now s sender))) \<longleftrightarrow> finalized (ws_work s) \<or> fires hook s"
  by (auto simp: on_ok_cases finalized_def fires_def split: sum.splits)

lemma run_events_invariant:
  "published s = 0 \<or> (published s = 1 \<and> finalized (ws_work s)) \<Longrightarrow>
   published (run_events hook tc now s evs) = 0
   \<or> (published (run_events hook tc now s evs) = 1
       \<and> finalized (ws_work (run_events hook tc now s evs)))"
proof (induction evs arbitrary: s)
  case Nil
  then show ?case by simp
next
  case (Cons ev evs)
  show ?case
  proof (cases ev)
    case (OnOk sender)
    have "published (snd (on_ok hook tc now s sender)) = 0
          \<or> (published (snd (on_ok hook tc now s sender)) = 1
              \<and> finalized (ws_work (snd (on_ok hook tc now s sender))))"
      using Cons.prems by (auto simp: on_ok_published on_ok_finalized fires_def)
    from Cons.IH [OF this] show ?thesis using OnOk by simp
  next
    case (Env f)
    have "published (s\<lparr>ws_store := f (ws_store s)\<rparr>) = 0
          \<or> (published (s\<lparr>ws_store := f (ws_store s)\<rparr>) = 1
              \<and> finalized (ws_work (s\<lparr>ws_store := f (ws_store s)\<rparr>)))"
      using Cons.prems by (simp add: published_def)
    from Cons.IH [OF this] show ?thesis using Env by simp
  qed
qed

text \<open>
  C2: a call of \<open>on_ok\<close> publishes \<open>S_OK\<close> for the workflow exactly when every task is at
  \<open>S_OK\<close>, the workflow is not finalized and the \<open>on_all_ok\<close> hook returns, and that call
  latches \<open>finalized\<close>; on a finalized workflow whose tasks are all at \<open>S_OK\<close> it returns
  the return code 0 with the message "already finalized" and changes nothing; with a task
  that is not at \<open>S_OK\<close> it returns the return code 1 and changes nothing. Over any sequence
  of \<open>on_ok\<close> calls and status changes that starts with nothing published, the signal is
  published at most once.
\<close>

theorem on_ok_publishes_once:
  "(published (snd (on_ok hook tc now s sender)) = published s + (if fires hook s then 1 else 0))
   \<and> (fires hook s \<longrightarrow> finalized (ws_work (snd (on_ok hook tc now s sender))))
   \<and> (all_ok s \<and> finalized (ws_work s) \<longrightarrow>
        on_ok hook tc now s sender
          = (Inr \<lparr>returncode = 0, message = ''Workflow has been already finalized''\<rparr>, s))
   \<and> (\<not> all_ok s \<longrightarrow>
        on_ok hook tc now s sender
          = (Inr \<lparr>returncode = 1, message = ''Not all tasks are OK!''\<rparr>, s))
   \<and> (published s = 0 \<longrightarrow> published (run_events hook tc now s evs) \<le> 1)"
proof -
  have "published s = 0 \<longrightarrow> published (run_events hook tc now s evs) \<le> 1"
    using run_events_invariant [of s hook tc now evs] by auto
  then show ?thesis
    by (simp add: on_ok_published on_ok_finalized) (simp add: on_ok_cases)
qed

theorem on_ok_publishes_once_witness:
  "fires on_all_ok wstate_a
   \<and> published wstate_a = 0
   \<and> published (snd (on_ok on_all_ok no_check ''now'' wstate_a 2)) = 1
   \<and> finalized (ws_work (snd (on_ok on_all_ok no_check ''now'' wstate_a 2)))
   \<and> published (run_events on_all_ok no_check ''now'' wstate_a [OnOk 2, Env (\<lambda>st. st), OnOk 2]) \<le> 1
   \<and> all_ok wstate_fin \<and> finalized (ws_work wstate_fin)
   \<and> on_ok on_all_ok no_check ''now'' wstate_fin 2
        = (Inr \<lparr>returncode = 0, message = ''Workflow has been already finalized''\<rparr>, wstate_fin)
   \<and> \<not> all_ok wstate_run
   \<and> on_ok on_all_ok no_check ''now'' wstate_run 2
        = (Inr \<lparr>returncode = 1, message = ''Not all tasks are OK!''\<rparr>, wstate_run)"
proof -
  have a: "fires on_all_ok wstate_a"
    by (simp add: fires_def all_ok_def finalized_def on_all_ok_def inst_defs)
  have b: "published wstate_a = 0"
    by (simp add: published_def inst_defs)
  have c: "all_ok wstate_fin \<and> finalized (ws_work wstate_fin)"
    by (simp add: all_ok_def finalized_def inst_defs)
  have d: "\<not> all_ok wstate_run"
    by (simp add: all_ok_def inst_defs)
  show ?thesis
    using a b c d
      on_ok_publishes_once [of on_all_ok no_check "''now''" wstate_a 2
        "[OnOk 2, Env (\<lambda>st. st), OnOk 2]"]
      on_ok_publishes_once [of on_all_ok no_check "''now''" wstate_fin 2 "[]"]
      on_ok_publishes_once [of on_all_ok no_check "''now''" wstate_run 2 "[]"]
    by simp
qed

text \<open>
  C4, as the claim states it: when the hook raises, \<open>on_ok\<close> would return a result with a
  return code other than zero. On \<open>wstate_a\<close> (every task at \<open>S_OK\<close>, not finalized) with a
  hook that raises, \<open>on_ok\<close> returns no such result.
\<close>

theorem on_ok_hook_exception_counterexample:
  "all_ok wstate_a \<and> \<not> finalized (ws_work wstate_a)
   \<and> failing_hook (ws_work wstate_a) = Inl (Exception ''on_all_ok failed'')
   \<and> \<not> returns_nonzero (fst (on_ok failing_hook no_check ''now'' wstate_a 2))"
  by (simp add: all_ok_def finalized_def failing_hook_def returns_nonzero_def on_ok_def inst_defs)

text \<open>
  C4, amended: when every task is at \<open>S_OK\<close>, the workflow is not finalized and the
  \<open>on_all_ok\<close> hook raises, the exception leaves \<open>on_ok\<close> uncaught and the state is as
  before the call: the workflow is still not finalized and nothing has been published.
\<close>

theorem on_ok_hook_exception_propagates:
  "all_ok s \<Longrightarrow> \<not> finalized (ws_work s) \<Longrightarrow> hook (ws_work s) = Inl e
   \<Longrightarrow> on_ok hook task_check now s sender = (Inl e, s)"
  by (simp add: all_ok_def on_ok_def)

theorem on_ok_hook_exception_propagates_witness:
  "all_ok wstate_a \<and> \<not> finalized (ws_work wstate_a)
   \<and> failing_hook (ws_work wstate_a) = Inl (Exception ''on_all_ok failed'')
   \<and> on_ok failing_hook no_check ''now'' wstate_a 2
        = (Inl (Exception ''on_all_ok failed''), wstate_a)"
proof -
  have a: "all_ok wstate_a"
    by (simp add: all_ok_def inst_defs)
  have b: "\<not> finalized (ws_work wstate_a)"
    by (simp add: finalized_def inst_defs)
  have c: "failing_hook (ws_work wstate_a) = Inl (Exception ''on_all_ok failed'')"
    by (simp add: failing_hook_def)
  show ?thesis
    using a b c on_ok_hook_exception_propagates
      [where s = wstate_a and hook = failing_hook and task_check = no_check and now = "''now''"
         and sender = 2 and e = "Exception ''on_all_ok failed''"]
    by simp
qed

subsection \<open>Scheduling\<close>

lemma can_run_iff:
  "can_run st t \<longleftrightarrow>
     st (node_id t) = S_READY \<and> (\<forall>d \<in> set (deps t). st (dep_node d) = S_OK)"
  by (auto simp: can_run_def deps_status_def dep_status_def list_all_iff)

lemma all_completed_iff:
  "list_all (is_completed st) ts \<longleftrightarrow>
     (\<forall>t \<in> set ts. status_rank S_DONE \<le> status_rank (st (node_id t)) \<and> st (node_id t) = S_OK)"
  by (simp add: list_all_iff is_completed_def)

lemma find_first:
  "i < length xs \<Longrightarrow> P (xs ! i) \<Longrightarrow> (\<forall>j<i. \<not> P (xs ! j)) \<Longrightarrow> find P xs = Some (xs ! i)"
  by (auto simp: find_Some_iff)

text \<open>
  C5: \<open>fetch_task_to_run\<close> raises \<open>StopIteration\<close> exactly when every task has a status
  \<open>\<ge> S_DONE\<close> and is at \<open>S_OK\<close>; otherwise it returns the first task, in index order, that is
  at \<open>S_READY\<close> with every dependency at \<open>S_OK\<close>, and logs nothing; and when no task can run
  it returns \<open>None\<close> after logging the deadlock warning.
\<close>

theorem fetch_task_to_run_spec:
  "(fetch_task_to_run st w = Inl StopIteration \<longleftrightarrow>
      (\<forall>t \<in> set (tasks w).
         status_rank S_DONE \<le> status_rank (st (node_id t)) \<and> st (node_id t) = S_OK))
   \<and> (\<not> list_all (is_completed st) (tasks w) \<longrightarrow>
        (\<forall>i < length (tasks w).
           can_run st (tasks w ! i) \<and> (\<forall>j<i. \<not> can_run st (tasks w ! j)) \<longrightarrow>
           st (node_id (tasks w ! i)) = S_READY
           \<and> (\<forall>d \<in> set (deps (tasks w ! i)). st (dep_node d) = S_OK)
           \<and> fetch_task_to_run st w = Inr (Some (tasks w ! i), [])))
   \<and> (\<not> list_all (is_completed st) (tasks w) \<and> (\<forall>t \<in> set (tasks w). \<not> can_run st t) \<longrightarrow>
        fetch_task_to_run st w = Inr (None, [''Possible deadlock in fetch_task_to_run!'']))"
proof -
  have a: "fetch_task_to_run st w = Inl StopIteration \<longleftrightarrow> list_all (is_completed st) (tasks w)"
    by (simp add: fetch_task_to_run_def split: option.splits)
  have b: "fetch_task_to_run st w = Inr (Some (tasks w ! i), [])"
    if "\<not> list_all (is_completed st) (tasks w)" "i < length (tasks w)"
       "can_run st (tasks w ! i)" "\<forall>j<i. \<not> can_run st (tasks w ! j)" for i
    using that by (simp add: fetch_task_to_run_def find_first)
  have c: "fetch_task_to_run st w = Inr (None, [''Possible deadlock in fetch_task_to_run!''])"
    if "\<not> list_all (is_completed st) (tasks w)" "\<forall>t \<in> set (tasks w). \<not> can_run st t"
  proof -
    have "find (can_run st) (tasks w) = None"
      using that(2) by (simp add: find_None_iff)
    then show ?thesis using that(1) by (simp add: fetch_task_to_run_def)
  qed
  show ?thesis
    using a b c by (simp add: all_completed_iff can_run_iff)
qed

theorem fetch_task_to_run_spec_witness:
  "fetch_task_to_run (\<lambda>_. S_OK) work_ab = Inl StopIteration
   \<and> \<not> list_all (is_completed store_ab) (tasks work_ab)
   \<and> can_run store_ab (tasks work_ab ! 1) \<and> \<not> can_run store_ab (tasks work_ab ! 0)
   \<and> fetch_task_to_run store_ab work_ab = Inr (Some task_b, [])
   \<and> \<not> list_all (is_completed store_err) (tasks work_ab)
   \<and> \<not> can_run store_err task_a \<and> \<not> can_run store_err task_b
   \<and> fetch_task_to_run store_err work_ab = Inr (None, [''Possible deadlock in fetch_task_to_run!''])"
proof -
  have a: "\<forall>t \<in> set (tasks work_ab).
             status_rank S_DONE \<le> status_rank ((\<lambda>_. S_OK) (node_id t))
             \<and> (\<lambda>_. S_OK) (node_id t) = S_OK"
    by simp
  have b: "\<not> list_all (is_completed store_ab) (tasks work_ab)"
    by (simp add: is_completed_def store_ab_def inst_defs)
  have c: "can_run store_ab (tasks work_ab ! 1) \<and> \<not> can_run store_ab (tasks work_ab ! 0)"
    by (simp add: can_run_def deps_status_def dep_status_def store_ab_def inst_defs)
  have c': "\<forall>j<1. \<not> can_run store_ab (tasks work_ab ! j)"
    using c by simp
  have d: "\<not> list_all (is_completed store_err) (tasks work_ab)"
    by (simp add: is_completed_def store_err_def inst_defs)
  have e: "\<not> can_run store_err task_a \<and> \<not> can_run store_err task_b"
    by (simp add: can_run_def deps_status_def dep_status_def store_err_def inst_defs)
  have e': "\<forall>t \<in> set (tasks work_ab). \<not> can_run store_err t"
    using e by (simp add: work_ab_def)
  have l: "(1::nat) < length (tasks work_ab)" "tasks work_ab ! 1 = task_b"
    by (simp_all add: work_ab_def)
  show ?thesis
    using a b c c' d e e' l
      fetch_task_to_run_spec [of "\<lambda>_. S_OK" work_ab]
      fetch_task_to_run_spec [of store_ab work_ab]
      fetch_task_to_run_spec [of store_err work_ab]
    by auto
qed

subsection \<open>Status propagation\<close>

lemma promotable_iff:
  "promotable s t \<longleftrightarrow>
     status_rank (s (node_id t)) \<le> status_rank S_SUB
     \<and> (\<forall>d \<in> set (deps t). s (dep_node d) = S_OK)"
  by (auto simp: promotable_def deps_status_def dep_status_def list_all_iff)

text \<open>
  Setting a node that is at most at \<open>S_SUB\<close> to \<open>S_READY\<close> changes neither whether a status
  is \<open>S_OK\<close> nor whether it is at most \<open>S_SUB\<close>, so the test of the loop gives the same
  answer before and after.
\<close>

lemma promotable_update:
  assumes "status_rank (s m) \<le> status_rank S_SUB"
  shows "promotable (s(m := S_READY)) t = promotable s t"
proof -
  have "s m \<noteq> S_OK" using assms by auto
  then have eq: "((s(m := S_READY)) x = S_OK) = (s x = S_OK)" for x
    by simp
  have "list_all (\<lambda>status. status = S_OK) (deps_status (s(m := S_READY)) t)
               = list_all (\<lambda>status. status = S_OK) (deps_status s t)"
    by (simp add: deps_status_def dep_status_def list_all_iff eq del: fun_upd_apply)
  moreover have "status_rank ((s(m := S_READY)) (node_id t)) \<le> status_rank S_SUB
                 \<longleftrightarrow> status_rank (s (node_id t)) \<le> status_rank S_SUB"
    using assms by auto
  ultimately show ?thesis by (simp add: promotable_def)
qed

lemma promote_loop:
  "fold (\<lambda>task s. if promotable s task then set_status s task S_READY else s) ts s n
     = (if \<exists>t \<in> set ts. node_id t = n \<and> promotable s t then S_READY else s n)"
proof (induction ts arbitrary: s)
  case Nil
  then show ?case by simp
next
  case (Cons t ts)
  let ?f = "\<lambda>task s. if promotable s task then set_status s task S_READY else s"
  show ?case
  proof (cases "promotable s t")
    case True
    let ?s' = "s(node_id t := S_READY)"
    from True have r: "status_rank (s (node_id t)) \<le> status_rank S_SUB"
      by (simp add: promotable_def)
    have e: "promotable ?s' t' = promotable s t'" for t'
      using promotable_update [of s "node_id t" t'] r by simp
    have "fold ?f (t # ts) s n = fold ?f ts ?s' n"
      using True by (simp add: set_status_def)
    also have "\<dots> = (if \<exists>t' \<in> set ts. node_id t' = n \<and> promotable ?s' t' then S_READY
                      else ?s' n)"
      by (rule Cons.IH)
    also have "\<dots> = (if \<exists>t' \<in> set ts. node_id t' = n \<and> promotable s t' then S_READY
                      else ?s' n)"
      by (simp only: e)
    also have "\<dots> = (if \<exists>t' \<in> set (t # ts). node_id t' = n \<and> promotable s t' then S_READY
                      else s n)"
      using True by auto
    finally show ?thesis .
  next
    case False
    then show ?thesis using Cons.IH [of s] by auto
  qed
qed

lemma check_status_eq:
  "check_status tc st w n
     = (if \<exists>t \<in> set (tasks w). node_id t = n \<and> promotable (run_task_checks tc st w) t
        then S_READY else run_task_checks tc st w n)"
  using promote_loop [of "tasks w" "run_task_checks tc st w" n]
  by (simp add: check_status_def promotable_def Let_def)

text \<open>
  C7: let \<open>st1\<close> be the statuses after the per-task checks. After \<open>check_status\<close>, every task
  whose status in \<open>st1\<close> is at most \<open>S_SUB\<close> and whose dependencies are all at \<open>S_OK\<close> (always
  so when it has none) is at \<open>S_READY\<close>; a task whose status the propagation changed is at
  \<open>S_READY\<close>, was at most at \<open>S_SUB\<close> and has every dependency at \<open>S_OK\<close> (node identifiers
  being unique in the workflow); and no node outside the workflow changes.
\<close>

theorem check_status_promotes:
  "(\<forall>t \<in> set (tasks w).
      status_rank (run_task_checks task_check st w (node_id t)) \<le> status_rank S_SUB
      \<and> (\<forall>d \<in> set (deps t). run_task_checks task_check st w (dep_node d) = S_OK)
      \<longrightarrow> check_status task_check st w (node_id t) = S_READY)
   \<and> (\<forall>t \<in> set (tasks w).
        distinct (map node_id (tasks w))
        \<and> check_status task_check st w (node_id t) \<noteq> run_task_checks task_check st w (node_id t)
        \<longrightarrow> check_status task_check st w (node_id t) = S_READY
            \<and> status_rank (run_task_checks task_check st w (node_id t)) \<le> status_rank S_SUB
            \<and> (\<forall>d \<in> set (deps t). run_task_checks task_check st w (dep_node d) = S_OK))
   \<and> (\<forall>n. n \<notin> node_id ` set (tasks w)
        \<longrightarrow> check_status task_check st w n = run_task_checks task_check st w n)"
proof -
  let ?st1 = "run_task_checks task_check st w"
  have c: "check_status task_check st w n
             = (if \<exists>t \<in> set (tasks w). node_id t = n \<and> promotable ?st1 t then S_READY
                else ?st1 n)" for n
    by (rule check_status_eq)
  have one: "check_status task_check st w (node_id t) = S_READY"
    if "t \<in> set (tasks w)" "promotable ?st1 t" for t
    using that c by auto
  have two: "check_status task_check st w (node_id t) = S_READY \<and> promotable ?st1 t"
    if "t \<in> set (tasks w)" "distinct (map node_id (tasks w))"
       "check_status task_check st w (node_id t) \<noteq> ?st1 (node_id t)" for t
  proof -
    from that(3) c [of "node_id t"]
    obtain t' where t': "t' \<in> set (tasks w)" "node_id t' = node_id t" "promotable ?st1 t'"
      by (auto split: if_splits)
    have "inj_on node_id (set (tasks w))"
      using that(2) by (simp add: distinct_map)
    then have "t' = t" using t' that(1) by (auto dest: inj_onD)
    then show ?thesis using t' that(1) c [of "node_id t"] by auto
  qed
  have three: "check_status task_check st w n = ?st1 n" if "n \<notin> node_id ` set (tasks w)" for n
    using that c [of n] by auto
  show ?thesis
    using one two three unfolding promotable_iff by blast
qed

theorem check_status_promotes_witness:
  "check_status no_check (\<lambda>_. S_INIT) work_ab (node_id task_a) = S_READY
   \<and> check_status no_check (\<lambda>_. S_INIT) work_ab (node_id task_b) = S_INIT
   \<and> distinct (map node_id (tasks work_ab))
   \<and> check_status no_check (\<lambda>_. S_INIT) work_ab 9 = S_INIT"
proof -
  have f: "run_task_checks no_check (\<lambda>_. S_INIT) work_ab = (\<lambda>_. S_INIT)"
    by (simp add: run_task_checks_def inst_defs)
  have a: "task_a \<in> set (tasks work_ab)" "task_b \<in> set (tasks work_ab)"
    "distinct (map node_id (tasks work_ab))" "9 \<notin> node_id ` set (tasks work_ab)"
    "deps task_a = []" "deps task_b = [\<lparr>dep_node = 2, dep_exts = [''DEN'']\<rparr>]"
    by (simp_all add: inst_defs)
  show ?thesis
    using check_status_promotes [of work_ab no_check "\<lambda>_. S_INIT"] a
    unfolding f by auto
qed

subsection \<open>Working directories\<close>

lemma alloc_err:
  "k < length ts \<Longrightarrow> workdir (ts ! k) = Some twd \<Longrightarrow> twd \<noteq> path_join d (''task_'' @ str_nat (i + k))
   \<Longrightarrow> fst (allocate_tasks mgr (Some d) i ts) = Some ValueError
       \<or> (mgr = None \<and> fst (allocate_tasks mgr (Some d) i ts) = Some (AttributeError ''manager''))"
proof (induction ts arbitrary: i k)
  case Nil
  then show ?case by simp
next
  case (Cons t rest)
  show ?case
  proof (cases k)
    case 0
    with Cons.prems show ?thesis
      by (auto simp: task_set_manager_def Let_def split: option.splits)
  next
    case (Suc k')
    have "fst (allocate_tasks mgr (Some d) (i + 1) rest) = Some ValueError
       \<or> (mgr = None \<and> fst (allocate_tasks mgr (Some d) (i + 1) rest) = Some (AttributeError ''manager''))"
      using Cons.IH [of k' "i + 1"] Cons.prems Suc by simp
    then show ?thesis
      by (auto simp: task_set_manager_def Let_def split: option.splits)
  qed
qed

lemma alloc_ok:
  "(\<forall>k<length ts. workdir (ts ! k) = None
                   \<or> workdir (ts ! k) = Some (path_join d (''task_'' @ str_nat (i + k))))
   \<Longrightarrow> fst (allocate_tasks (Some m) (Some d) i ts) = None
       \<and> length (snd (allocate_tasks (Some m) (Some d) i ts)) = length ts
       \<and> (\<forall>k<length ts.
             workdir (snd (allocate_tasks (Some m) (Some d) i ts) ! k)
               = Some (path_join d (''task_'' @ str_nat (i + k)))
             \<and> manager (snd (allocate_tasks (Some m) (Some d) i ts) ! k) \<noteq> None)"
proof (induction ts arbitrary: i)
  case Nil
  then show ?case by simp
next
  case (Cons t rest)
  have hd: "workdir t = None \<or> workdir t = Some (path_join d (''task_'' @ str_nat i))"
    using Cons.prems [rule_format, of 0] by simp
  have tl: "\<forall>k<length rest. workdir (rest ! k) = None
              \<or> workdir (rest ! k) = Some (path_join d (''task_'' @ str_nat (i + 1 + k)))"
    using Cons.prems by (auto dest: spec [of _ "Suc k" for k])
  note ih = Cons.IH [OF tl]
  show ?case
  proof (intro conjI allI impI)
    show "fst (allocate_tasks (Some m) (Some d) i (t # rest)) = None"
      using hd ih by (auto simp: task_set_manager_def task_set_workdir_def Let_def split: option.splits)
    show "length (snd (allocate_tasks (Some m) (Some d) i (t # rest))) = length (t # rest)"
      using hd ih by (auto simp: task_set_manager_def task_set_workdir_def Let_def split: option.splits)
    fix k assume "k < length (t # rest)"
    then show "workdir (snd (allocate_tasks (Some m) (Some d) i (t # rest)) ! k)
               = Some (path_join d (''task_'' @ str_nat (i + k)))"
      using hd ih
      by (cases k) (auto simp: task_set_manager_def task_set_workdir_def Let_def split: option.splits)
    from \<open>k < length (t # rest)\<close>
    show "manager (snd (allocate_tasks (Some m) (Some d) i (t # rest)) ! k) \<noteq> None"
      using hd ih
      by (cases k) (auto simp: task_set_manager_def task_set_workdir_def Let_def split: option.splits)
  qed
qed

lemma set_workdir_again:
  assumes idem: "\<forall>p. abspath (abspath p) = abspath p"
    and ok: "set_workdir abspath w0 p = Inr w"
  shows "workdir w = Some (abspath p) \<and> set_workdir abspath w (abspath p) = Inr w"
proof -
  from ok have w: "w = w0\<lparr>workdir := Some (abspath p),
                     indir := Some (path_join (abspath p) ''indata''),
                     outdir := Some (path_join (abspath p) ''outdata''),
                     tmpdir := Some (path_join (abspath p) ''tmpdata'')\<rparr>"
    by (auto simp: set_workdir_def Let_def split: if_splits)
  show ?thesis
    unfolding w using idem by (simp add: set_workdir_def Let_def)
qed

lemma set_workdir_other:
  "workdir w = Some d \<Longrightarrow> q \<noteq> d \<Longrightarrow> set_workdir abspath w q = Inl ValueError"
  by (simp add: set_workdir_def)

lemma set_workdir_success:
  "workdir w = Some d \<Longrightarrow> set_workdir abspath w q = Inr w' \<Longrightarrow> q = d \<and> workdir w' = Some (abspath d)"
  by (auto simp: set_workdir_def Let_def split: if_splits)

text \<open>
  C8: a workflow whose working directory was set by \<open>set_workdir\<close> accepts the same path
  again and is left as it is (\<open>os.path.abspath\<close> being idempotent); whenever a working
  directory is present, a call with a different path raises \<open>ValueError\<close>, and a call that
  succeeds was given the present path. \<open>allocate\<close> applies the rule to the tasks: it raises
  an error (\<open>ValueError\<close> when the workflow has a manager) if some task has a working
  directory other than \<open>workdir/task_i\<close>, and otherwise succeeds and leaves every task in
  its canonical directory.
\<close>

theorem workdir_set_once:
  "((\<forall>p. abspath (abspath p) = abspath p) \<and> set_workdir abspath w0 p = Inr w \<longrightarrow>
      workdir w = Some (abspath p) \<and> set_workdir abspath w (abspath p) = Inr w)
   \<and> (workdir w = Some d \<and> q \<noteq> d \<longrightarrow> set_workdir abspath w q = Inl ValueError)
   \<and> (workdir w = Some d \<and> set_workdir abspath w q = Inr w' \<longrightarrow>
        q = d \<and> workdir w' = Some (abspath d))
   \<and> (workdir w = Some d \<and> i < length (tasks w) \<and> workdir (tasks w ! i) = Some twd
        \<and> twd \<noteq> task_workdir_of d i \<longrightarrow>
        fst (allocate w) \<noteq> None \<and> (manager w \<noteq> None \<longrightarrow> fst (allocate w) = Some ValueError))
   \<and> (workdir w = Some d \<and> manager w = Some m
        \<and> (\<forall>i<length (tasks w). workdir (tasks w ! i) = None
                                  \<or> workdir (tasks w ! i) = Some (task_workdir_of d i)) \<longrightarrow>
        fst (allocate w) = None
        \<and> length (tasks (snd (allocate w))) = length (tasks w)
        \<and> (\<forall>i<length (tasks w). workdir (tasks (snd (allocate w)) ! i) = Some (task_workdir_of d i)))"
proof (intro conjI impI)
  assume "(\<forall>p. abspath (abspath p) = abspath p) \<and> set_workdir abspath w0 p = Inr w"
  then show "workdir w = Some (abspath p)" "set_workdir abspath w (abspath p) = Inr w"
    using set_workdir_again [of abspath w0 p w] by simp_all
next
  assume "workdir w = Some d \<and> q \<noteq> d"
  then show "set_workdir abspath w q = Inl ValueError"
    by (simp add: set_workdir_other)
next
  assume a: "workdir w = Some d \<and> set_workdir abspath w q = Inr w'"
  then show "q = d" "workdir w' = Some (abspath d)"
    using set_workdir_success [of w d abspath q w'] by simp_all
next
  assume a: "workdir w = Some d \<and> i < length (tasks w) \<and> workdir (tasks w ! i) = Some twd
        \<and> twd \<noteq> task_workdir_of d i"
  then have e: "fst (allocate_tasks (manager w) (Some d) 0 (tasks w)) = Some ValueError
       \<or> (manager w = None
           \<and> fst (allocate_tasks (manager w) (Some d) 0 (tasks w)) = Some (AttributeError ''manager''))"
    using alloc_err [of i "tasks w" twd d 0 "manager w"] by (simp add: task_workdir_of_def)
  from e a show "fst (allocate w) \<noteq> None"
    by (auto simp: allocate_def Let_def)
  from e a show "fst (allocate w) = Some ValueError" if "manager w \<noteq> None"
    using that by (auto simp: allocate_def Let_def)
next
  assume a: "workdir w = Some d \<and> manager w = Some m
        \<and> (\<forall>i<length (tasks w). workdir (tasks w ! i) = None
                                  \<or> workdir (tasks w ! i) = Some (task_workdir_of d i))"
  then have h: "\<forall>k<length (tasks w). workdir (tasks w ! k) = None
                   \<or> workdir (tasks w ! k) = Some (path_join d (''task_'' @ str_nat (0 + k)))"
    by (simp add: task_workdir_of_def)
  note r = alloc_ok [OF h, of m]
  from r a show "fst (allocate w) = None"
    by (simp add: allocate_def Let_def)
  from r a show "length (tasks (snd (allocate w))) = length (tasks w)"
    by (simp add: allocate_def Let_def)
  from r a show "\<forall>i<length (tasks w). workdir (tasks (snd (allocate w)) ! i) = Some (task_workdir_of d i)"
    by (simp add: allocate_def Let_def task_workdir_of_def)
qed

theorem workdir_set_once_witness:
  "(\<forall>p. abspath_cwd (abspath_cwd p) = abspath_cwd p)
   \<and> set_workdir abspath_cwd (work_d\<lparr>workdir := None\<rparr>) ''/w/work_0'' = Inr work_d
   \<and> set_workdir abspath_cwd work_d ''/w/work_0'' = Inr work_d
   \<and> set_workdir abspath_cwd work_d ''/w/other'' = Inl ValueError
   \<and> workdir (tasks work_e ! 1) = Some ''/elsewhere/task_1''
   \<and> task_workdir_of ''/w/work_0'' 1 = ''/w/work_0/task_1''
   \<and> fst (allocate work_e) = Some ValueError
   \<and> fst (allocate work_d) = None
   \<and> workdir (tasks (snd (allocate work_d)) ! 0) = Some ''/w/work_0/task_0''
   \<and> workdir (tasks (snd (allocate work_d)) ! 1) = Some ''/w/work_0/task_1''"
proof -
  have idem: "\<forall>p. abspath_cwd (abspath_cwd p) = abspath_cwd p"
    by (simp add: abspath_cwd_def)
  have ab: "abspath_cwd ''/w/work_0'' = ''/w/work_0''"
    by (simp add: abspath_cwd_def)
  have first: "set_workdir abspath_cwd (work_d\<lparr>workdir := None\<rparr>) ''/w/work_0'' = Inr work_d"
    by (simp add: set_workdir_def abspath_cwd_def work_d_def path_join_def Let_def)
  have wd: "workdir work_d = Some ''/w/work_0''" "manager work_d = Some ''shell''"
    "workdir work_e = Some ''/w/work_0''" "manager work_e = Some ''shell''"
    by (simp_all add: work_d_def work_e_def)
  have canon: "task_workdir_of ''/w/work_0'' 0 = ''/w/work_0/task_0''"
    "task_workdir_of ''/w/work_0'' 1 = ''/w/work_0/task_1''"
    by (simp_all add: task_workdir_of_def path_join_def str_nat.simps digit_char_def)
  have ts: "length (tasks work_d) = 2" "workdir (tasks work_d ! 0) = None"
    "workdir (tasks work_d ! 1) = Some ''/w/work_0/task_1''"
    "length (tasks work_e) = 2" "workdir (tasks work_e ! 1) = Some ''/elsewhere/task_1''"
    by (simp_all add: work_d_def work_e_def inst_defs)
  have all: "\<forall>i<length (tasks work_d). workdir (tasks work_d ! i) = None
               \<or> workdir (tasks work_d ! i) = Some (task_workdir_of ''/w/work_0'' i)"
    using ts canon by (auto simp: less_Suc_eq numeral_2_eq_2)
  have i1: "set_workdir abspath_cwd work_d ''/w/work_0'' = Inr work_d
            \<and> set_workdir abspath_cwd work_d ''/w/other'' = Inl ValueError
            \<and> fst (allocate work_d) = None
            \<and> (\<forall>i<length (tasks work_d).
                  workdir (tasks (snd (allocate work_d)) ! i) = Some (task_workdir_of ''/w/work_0'' i))"
    using idem first ab wd all
      workdir_set_once [where abspath = abspath_cwd and ?w0.0 = "work_d\<lparr>workdir := None\<rparr>"
        and p = "''/w/work_0''" and w = work_d and d = "''/w/work_0''" and q = "''/w/other''"
        and m = "''shell''" and w' = work_d and i = 0 and twd = "[]"]
    by simp
  have i2: "fst (allocate work_e) = Some ValueError"
    using wd ts canon
      workdir_set_once [where abspath = abspath_cwd and ?w0.0 = work_e
        and p = "''/w/work_0''" and w = work_e and d = "''/w/work_0''" and q = "''/w/other''"
        and m = "''shell''" and w' = work_e and i = 1 and twd = "''/elsewhere/task_1''"]
    by simp
  show ?thesis
    using idem first i1 i2 ts canon by simp
qed

subsection \<open>Iterative workflows\<close>

lemma registered_simps:
  "tasks (registered tc w s)
     = tasks w @ [tc s (map_option (\<lambda>d. task_workdir_of d (length (tasks w))) (workdir w))
                      None]"
  "gen_pos (registered tc w s) = gen_pos w + 1"
  "strategy_generator (registered tc w s) = strategy_generator w"
  "max_niter (registered tc w s) = max_niter w"
  "niter (registered tc w s) = niter w"
  "workdir (registered tc w s) = workdir w"
  "calls (registered tc w s) = calls w"
  by (cases "workdir w"; simp add: registered_def register_def task_workdir_of_def Let_def)+

lemma iteration_simps:
  "tasks (iteration tc w s)
     = tasks w @ [tc s (map_option (\<lambda>d. task_workdir_of d (length (tasks w))) (workdir w))
                      None]"
  "gen_pos (iteration tc w s) = gen_pos w + 1"
  "strategy_generator (iteration tc w s) = strategy_generator w"
  "max_niter (iteration tc w s) = max_niter w"
  "niter (iteration tc w s) = niter w"
  "workdir (iteration tc w s) = workdir w"
  "calls (iteration tc w s) = calls w @ [Start (length (tasks w)), Wait (length (tasks w))]"
  by (simp_all add: iteration_def registered_simps)

text \<open>One turn of the loop of \<open>submit_tasks\<close>.\<close>

lemma submit_loop_unfold:
  "submit_loop (Suc fuel) tc ex w =
     (if max_niter w < niter w \<and> 0 < max_niter w then Some (None, w)
      else case strategy_generator w (gen_pos w) of
             None \<Rightarrow> Some (None, w)
           | Some s \<Rightarrow>
               if int (length (tasks w)) + 1 \<noteq> niter w
               then Some (Some AssertionError, registered tc w s)
               else (case ex (iteration tc w s) ''exit'' of
                       None \<Rightarrow> Some (Some (KeyError ''exit''), iteration tc w s)
                     | Some b \<Rightarrow>
                         if b then Some (None, iteration tc w s)
                         else submit_loop fuel tc ex ((iteration tc w s)\<lparr>niter := niter w + 1\<rparr>)))"
  by (simp add: next_task_def iteration_def registered_def register_def Let_def
      split: option.splits)

declare submit_loop.simps [simp del]

lemma new_task_0:
  "strategy_generator w (gen_pos w) = Some s \<Longrightarrow>
   new_task tc w 0
     = tc s (map_option (\<lambda>d. task_workdir_of d (length (tasks w))) (workdir w)) None"
  by (simp add: new_task_def)

lemma new_task_shift:
  "new_task tc ((iteration tc w s)\<lparr>niter := n\<rparr>) i = new_task tc w (Suc i)"
  by (simp add: new_task_def iteration_simps)

lemma upt_0_Suc: "[0..<Suc k] = 0 # map Suc [0..<k]"
  by (simp add: upt_conv_Cons map_Suc_upt del: upt_Suc)

lemma task_calls_0: "task_calls n 0 = []"
  by (simp add: task_calls_def)

lemma task_calls_Suc: "task_calls n (Suc k) = [Start n, Wait n] @ task_calls (Suc n) k"
  by (simp add: task_calls_def upt_conv_Cons del: upt_Suc)

text \<open>What a run of the loop that returns or raises has done.\<close>

lemma submit_loop_result:
  "submit_loop fuel tc ex w = Some (e, w') \<Longrightarrow>
   \<exists>k. tasks w' = tasks w @ map (new_task tc w) [0..<k]
     \<and> gen_pos w' = gen_pos w + k
     \<and> (\<forall>i<k. strategy_generator w (gen_pos w + i) \<noteq> None)
     \<and> (\<forall>i. Suc i < k \<longrightarrow> ex (exit_state tc w i) ''exit'' = Some False)
     \<and> (0 < max_niter w \<longrightarrow> int k \<le> max (max_niter w + 1 - niter w) 0)
     \<and> (e = None \<longrightarrow>
          calls w' = calls w @ task_calls (length (tasks w)) k
          \<and> ((0 < max_niter w \<and> int k = max (max_niter w + 1 - niter w) 0)
              \<or> strategy_generator w (gen_pos w + k) = None
              \<or> ex w' ''exit'' = Some True))"
proof (induction fuel arbitrary: w)
  case 0
  then show ?case by (simp add: submit_loop.simps)
next
  case (Suc fuel)
  note run = Suc.prems [unfolded submit_loop_unfold]
  show ?case
  proof (cases "max_niter w < niter w \<and> 0 < max_niter w")
    case True
    with run have "e = None" "w' = w" by simp_all
    with True show ?thesis
      by (intro exI [of _ 0]) (simp add: task_calls_0)
  next
    case nb: False
    show ?thesis
    proof (cases "strategy_generator w (gen_pos w)")
      case None
      with run nb have "e = None" "w' = w" by simp_all
      with None show ?thesis
        by (intro exI [of _ 0]) (simp add: task_calls_0)
    next
      case (Some s)
      have bound1: "0 < max_niter w \<longrightarrow> int (Suc 0) \<le> max (max_niter w + 1 - niter w) 0"
        using nb by auto
      show ?thesis
      proof (cases "int (length (tasks w)) + 1 \<noteq> niter w")
        case True
        with run nb Some have "e = Some AssertionError" "w' = registered tc w s" by simp_all
        with Some bound1 show ?thesis
          by (intro exI [of _ "Suc 0"]) (simp add: registered_simps new_task_0)
      next
        case asrt: False
        show ?thesis
        proof (cases "ex (iteration tc w s) ''exit''")
          case None
          with run nb Some asrt have "e = Some (KeyError ''exit'')" "w' = iteration tc w s"
            by simp_all
          with Some bound1 show ?thesis
            by (intro exI [of _ "Suc 0"]) (simp add: iteration_simps new_task_0)
        next
          case ex: (Some b)
          show ?thesis
          proof (cases b)
            case True
            with run nb Some asrt ex have r: "e = None" "w' = iteration tc w s" by simp_all
            have "ex w' ''exit'' = Some True" using ex True r by simp
            with r Some bound1 show ?thesis
              by (intro exI [of _ "Suc 0"])
                (simp add: iteration_simps new_task_0 task_calls_Suc task_calls_0)
          next
            case False
            let ?w3 = "(iteration tc w s)\<lparr>niter := niter w + 1\<rparr>"
            from run nb Some asrt ex False
            have "submit_loop fuel tc ex ?w3 = Some (e, w')" by simp
            from Suc.IH [OF this] obtain k where
              t: "tasks w' = tasks ?w3 @ map (new_task tc ?w3) [0..<k]"
              and g: "gen_pos w' = gen_pos ?w3 + k"
              and p: "\<forall>i<k. strategy_generator ?w3 (gen_pos ?w3 + i) \<noteq> None"
              and x: "\<forall>i. Suc i < k \<longrightarrow> ex (exit_state tc ?w3 i) ''exit'' = Some False"
              and b: "0 < max_niter ?w3 \<longrightarrow> int k \<le> max (max_niter ?w3 + 1 - niter ?w3) 0"
              and c: "e = None \<longrightarrow>
                      calls w' = calls ?w3 @ task_calls (length (tasks ?w3)) k
                      \<and> ((0 < max_niter ?w3 \<and> int k = max (max_niter ?w3 + 1 - niter ?w3) 0)
                          \<or> strategy_generator ?w3 (gen_pos ?w3 + k) = None
                          \<or> ex w' ''exit'' = Some True)"
              by blast
            have t': "tasks w' = tasks w @ map (new_task tc w) [0..<Suc k]"
              using t Some
              by (simp add: iteration_simps new_task_shift new_task_0 [symmetric] upt_0_Suc comp_def
                  del: upt_Suc)
            have g': "gen_pos w' = gen_pos w + Suc k"
              using g by (simp add: iteration_simps)
            have p': "\<forall>i<Suc k. strategy_generator w (gen_pos w + i) \<noteq> None"
            proof (intro allI impI)
              fix i assume "i < Suc k"
              show "strategy_generator w (gen_pos w + i) \<noteq> None"
              proof (cases i)
                case 0
                then show ?thesis using Some by simp
              next
                case (Suc i')
                then have "i' < k" using \<open>i < Suc k\<close> by simp
                with p have "strategy_generator w (gen_pos w + 1 + i') \<noteq> None"
                  by (simp add: iteration_simps)
                then show ?thesis using Suc by (simp add: add.commute add.left_commute)
              qed
            qed
            have x': "\<forall>i. Suc i < Suc k \<longrightarrow> ex (exit_state tc w i) ''exit'' = Some False"
            proof (intro allI impI)
              fix i assume "Suc i < Suc k"
              show "ex (exit_state tc w i) ''exit'' = Some False"
              proof (cases i)
                case 0
                then show ?thesis using Some ex False by simp
              next
                case (Suc i')
                then have "Suc i' < k" using \<open>Suc i < Suc k\<close> by simp
                with x have "ex (exit_state tc ?w3 i') ''exit'' = Some False" by blast
                then show ?thesis using Suc Some by simp
              qed
            qed
            have le: "0 < max_niter w \<Longrightarrow> niter w \<le> max_niter w"
              using nb by auto
            have b': "0 < max_niter w \<longrightarrow> int (Suc k) \<le> max (max_niter w + 1 - niter w) 0"
              using b le by (auto simp: iteration_simps)
            have c': "e = None \<longrightarrow>
                      calls w' = calls w @ task_calls (length (tasks w)) (Suc k)
                      \<and> ((0 < max_niter w \<and> int (Suc k) = max (max_niter w + 1 - niter w) 0)
                          \<or> strategy_generator w (gen_pos w + Suc k) = None
                          \<or> ex w' ''exit'' = Some True)"
            proof
              assume "e = None"
              with c have c1: "calls w' = calls ?w3 @ task_calls (length (tasks ?w3)) k"
                and c2: "(0 < max_niter ?w3 \<and> int k = max (max_niter ?w3 + 1 - niter ?w3) 0)
                          \<or> strategy_generator ?w3 (gen_pos ?w3 + k) = None
                          \<or> ex w' ''exit'' = Some True"
                by simp_all
              have "calls w' = calls w @ task_calls (length (tasks w)) (Suc k)"
                using c1 by (simp add: iteration_simps task_calls_Suc)
              moreover have "(0 < max_niter w \<and> int (Suc k) = max (max_niter w + 1 - niter w) 0)
                          \<or> strategy_generator w (gen_pos w + Suc k) = None
                          \<or> ex w' ''exit'' = Some True"
                using c2 le by (auto simp: iteration_simps)
              ultimately show "calls w' = calls w @ task_calls (length (tasks w)) (Suc k)
                      \<and> ((0 < max_niter w \<and> int (Suc k) = max (max_niter w + 1 - niter w) 0)
                          \<or> strategy_generator w (gen_pos w + Suc k) = None
                          \<or> ex w' ''exit'' = Some True)"
                by simp
            qed
            show ?thesis
              using t' g' p' x' b' c' by (intro exI [of _ "Suc k"]) blast
          qed
        qed
      qed
    qed
  qed
qed

text \<open>
  A run on a workflow that holds \<open>niter - 1\<close> tasks, with a hook whose result always has
  the \<open>exit\<close> entry, raises nothing.
\<close>

lemma submit_loop_no_error:
  "int (length (tasks w)) + 1 = niter w \<Longrightarrow> (\<forall>s. ex s ''exit'' \<noteq> None)
   \<Longrightarrow> submit_loop fuel tc ex w = Some (e, w') \<Longrightarrow> e = None"
proof (induction fuel arbitrary: w)
  case 0
  then show ?case by (simp add: submit_loop.simps)
next
  case (Suc fuel)
  note run = Suc.prems(3) [unfolded submit_loop_unfold]
  show ?case
  proof (cases "max_niter w < niter w \<and> 0 < max_niter w")
    case True
    with run show ?thesis by simp
  next
    case nb: False
    show ?thesis
    proof (cases "strategy_generator w (gen_pos w)")
      case None
      with run nb show ?thesis by simp
    next
      case (Some s)
      let ?w3 = "(iteration tc w s)\<lparr>niter := niter w + 1\<rparr>"
      from Suc.prems(2) obtain b where b: "ex (iteration tc w s) ''exit'' = Some b"
        by auto
      show ?thesis
      proof (cases b)
        case True
        with run nb Some b Suc.prems(1) show ?thesis by simp
      next
        case False
        with run nb Some b Suc.prems(1)
        have r: "submit_loop fuel tc ex ?w3 = Some (e, w')" by simp
        have "int (length (tasks ?w3)) + 1 = niter ?w3"
          using Suc.prems(1) by (simp add: iteration_simps)
        from Suc.IH [OF this Suc.prems(2) r] show ?thesis .
      qed
    qed
  qed
qed

text \<open>
  The loop returns when the bound on the iterations is in force and the fuel exceeds it,
  or when the producer runs dry within the fuel.
\<close>

lemma submit_loop_terminates:
  "(0 < max_niter w \<and> nat (max_niter w + 1 - niter w) < fuel)
   \<or> (\<exists>n<fuel. strategy_generator w (gen_pos w + n) = None)
   \<Longrightarrow> submit_loop fuel tc ex w \<noteq> None"
proof (induction fuel arbitrary: w)
  case 0
  then show ?case by simp
next
  case (Suc fuel)
  show ?case
  proof (cases "max_niter w < niter w \<and> 0 < max_niter w")
    case True
    then show ?thesis by (simp add: submit_loop_unfold)
  next
    case nb: False
    show ?thesis
    proof (cases "strategy_generator w (gen_pos w)")
      case None
      then show ?thesis using nb by (simp add: submit_loop_unfold)
    next
      case (Some s)
      let ?w3 = "(iteration tc w s)\<lparr>niter := niter w + 1\<rparr>"
      have "(0 < max_niter ?w3 \<and> nat (max_niter ?w3 + 1 - niter ?w3) < fuel)
            \<or> (\<exists>n<fuel. strategy_generator ?w3 (gen_pos ?w3 + n) = None)"
        using Suc.prems
      proof
        assume "0 < max_niter w \<and> nat (max_niter w + 1 - niter w) < Suc fuel"
        then show ?thesis using nb by (auto simp: iteration_simps)
      next
        assume "\<exists>n<Suc fuel. strategy_generator w (gen_pos w + n) = None"
        then obtain n where n: "n < Suc fuel" "strategy_generator w (gen_pos w + n) = None"
          by blast
        with Some obtain n' where "n = Suc n'" by (cases n) auto
        with n have "n' < fuel" "strategy_generator w (gen_pos w + 1 + n') = None"
          by (simp_all add: add.commute add.left_commute)
        then show ?thesis by (auto simp: iteration_simps)
      qed
      from Suc.IH [OF this] show ?thesis
        using nb Some by (auto simp: submit_loop_unfold split: option.splits)
    qed
  qed
qed

text \<open>Without a bound the loop goes on for as long as the producer yields strategies.\<close>

lemma submit_loop_unbounded:
  "max_niter w \<le> 0 \<Longrightarrow> int (length (tasks w)) + 1 = niter w
   \<Longrightarrow> (\<forall>i<n. strategy_generator w (gen_pos w + i) \<noteq> None)
   \<Longrightarrow> strategy_generator w (gen_pos w + n) = None
   \<Longrightarrow> (\<forall>s. ex s ''exit'' = Some False)
   \<Longrightarrow> \<exists>w'. submit_loop (Suc n) tc ex w = Some (None, w')
          \<and> length (tasks w') = length (tasks w) + n
          \<and> calls w' = calls w @ task_calls (length (tasks w)) n"
proof (induction n arbitrary: w)
  case 0
  then show ?case by (simp add: submit_loop_unfold task_calls_0)
next
  case (Suc n)
  from Suc.prems(3) obtain s where s: "strategy_generator w (gen_pos w) = Some s"
    by (metis add.right_neutral not_None_eq zero_less_Suc)
  let ?w3 = "(iteration tc w s)\<lparr>niter := niter w + 1\<rparr>"
  have 1: "max_niter ?w3 \<le> 0" using Suc.prems(1) by (simp add: iteration_simps)
  have 2: "int (length (tasks ?w3)) + 1 = niter ?w3"
    using Suc.prems(2) by (simp add: iteration_simps)
  have 3: "\<forall>i<n. strategy_generator ?w3 (gen_pos ?w3 + i) \<noteq> None"
  proof (intro allI impI)
    fix i assume "i < n"
    then have "strategy_generator w (gen_pos w + Suc i) \<noteq> None"
      using Suc.prems(3) [rule_format, of "Suc i"] by simp
    then show "strategy_generator ?w3 (gen_pos ?w3 + i) \<noteq> None"
      by (simp add: iteration_simps)
  qed
  have 4: "strategy_generator ?w3 (gen_pos ?w3 + n) = None"
    using Suc.prems(4) by (simp add: iteration_simps)
  from Suc.IH [OF 1 2 3 4 Suc.prems(5)] obtain w' where
    w': "submit_loop (Suc n) tc ex ?w3 = Some (None, w')"
        "length (tasks w') = length (tasks ?w3) + n"
        "calls w' = calls ?w3 @ task_calls (length (tasks ?w3)) n"
    by blast
  have "submit_loop (Suc (Suc n)) tc ex w = submit_loop (Suc n) tc ex ?w3"
    using s Suc.prems(1,2,5) by (subst submit_loop_unfold) simp
  with w' show ?case
    by (simp add: iteration_simps task_calls_Suc)
qed

lemma new_task_niter: "new_task tc (w\<lparr>niter := n\<rparr>) = new_task tc w"
  by (simp add: new_task_def fun_eq_iff)

lemma submit_loop_numeral:
  "submit_loop (numeral v) tc ex w =
     (if max_niter w < niter w \<and> 0 < max_niter w then Some (None, w)
      else case strategy_generator w (gen_pos w) of
             None \<Rightarrow> Some (None, w)
           | Some s \<Rightarrow>
               if int (length (tasks w)) + 1 \<noteq> niter w
               then Some (Some AssertionError, registered tc w s)
               else (case ex (iteration tc w s) ''exit'' of
                       None \<Rightarrow> Some (Some (KeyError ''exit''), iteration tc w s)
                     | Some b \<Rightarrow>
                         if b then Some (None, iteration tc w s)
                         else submit_loop (pred_numeral v) tc ex
                                ((iteration tc w s)\<lparr>niter := niter w + 1\<rparr>)))"
  by (simp only: numeral_eq_Suc submit_loop_unfold)

text \<open>
  C6, as the claim states it: on every iterative workflow with \<open>max_niter > 0\<close>, each
  iteration would register one task, start it and wait for it. \<open>iw_busy\<close> holds one task
  when \<open>submit_tasks\<close> is called: the first iteration pulls a strategy and registers a
  second task, then the assertion \<open>len(self) == self.niter\<close> of \<open>next_task\<close> fails, and the
  call raises \<open>AssertionError\<close> with no task started or waited for.
\<close>

theorem submit_tasks_assertion_counterexample:
  "0 < max_niter iw_busy
   \<and> length (tasks iw_busy) = 1
   \<and> map_option (\<lambda>r. (fst r, length (tasks (snd r)), gen_pos (snd r), calls (snd r)))
        (submit_tasks 6 task_of exit_at_3 iw_busy)
       = Some (Some AssertionError, 2, 1, [])"
  by (simp add: submit_tasks_def submit_loop_numeral registered_simps iw_busy_def iw_e4_def)

text \<open>
  C6, amended: with \<open>max_niter > 0\<close>, \<open>submit_tasks\<close> ends (fuel \<open>max_niter + 1\<close> suffices)
  after \<open>k \<le> max_niter\<close> iterations, each of which pulled one strategy from the producer
  and registered one task for it, and no iteration before the last one was told to exit.
  When the workflow holds no task at the call and the result of \<open>exit_iteration\<close> always
  has an \<open>exit\<close> entry, the call returns normally; and a call that returns normally has
  started and waited for every one of the \<open>k\<close> tasks, in order, and stopped because
  \<open>k = max_niter\<close>, or the producer had no more values, or \<open>exit_iteration\<close> returned a
  true \<open>exit\<close> entry. With \<open>max_niter \<le> 0\<close> there is no bound: on a workflow without
  tasks, with a hook that never says \<open>exit\<close>, the run makes as many iterations as the
  producer has values, whatever their number \<open>n\<close>.
\<close>

theorem submit_tasks_iterations:
  "(0 < max_niter w \<longrightarrow>
      (\<exists>e w' k. submit_tasks (nat (max_niter w) + 1) tc ex w = Some (e, w')
         \<and> int k \<le> max_niter w
         \<and> tasks w' = tasks w @ map (new_task tc w) [0..<k]
         \<and> gen_pos w' = gen_pos w + k
         \<and> (\<forall>i<k. strategy_generator w (gen_pos w + i) \<noteq> None)
         \<and> (\<forall>i. Suc i < k \<longrightarrow> ex (exit_state tc (w\<lparr>niter := 1\<rparr>) i) ''exit'' = Some False)
         \<and> (tasks w = [] \<and> (\<forall>s. ex s ''exit'' \<noteq> None) \<longrightarrow> e = None)
         \<and> (e = None \<longrightarrow>
              calls w' = calls w @ task_calls (length (tasks w)) k
              \<and> (int k = max_niter w
                  \<or> strategy_generator w (gen_pos w + k) = None
                  \<or> ex w' ''exit'' = Some True))))
   \<and> (max_niter w \<le> 0 \<and> tasks w = []
        \<and> (\<forall>i<n. strategy_generator w (gen_pos w + i) \<noteq> None)
        \<and> strategy_generator w (gen_pos w + n) = None
        \<and> (\<forall>s. ex s ''exit'' = Some False) \<longrightarrow>
        (\<exists>w'. submit_tasks (n + 1) tc ex w = Some (None, w')
           \<and> length (tasks w') = n
           \<and> calls w' = calls w @ task_calls 0 n))"
proof (intro conjI impI)
  let ?w0 = "w\<lparr>niter := 1\<rparr>"
  assume m: "0 < max_niter w"
  then have "submit_loop (nat (max_niter w) + 1) tc ex ?w0 \<noteq> None"
    by (intro submit_loop_terminates) simp
  then obtain e w' where r: "submit_loop (nat (max_niter w) + 1) tc ex ?w0 = Some (e, w')"
    by auto
  from submit_loop_result [OF r] obtain k where
    k: "tasks w' = tasks ?w0 @ map (new_task tc ?w0) [0..<k]"
       "gen_pos w' = gen_pos ?w0 + k"
       "\<forall>i<k. strategy_generator ?w0 (gen_pos ?w0 + i) \<noteq> None"
       "\<forall>i. Suc i < k \<longrightarrow> ex (exit_state tc ?w0 i) ''exit'' = Some False"
       "0 < max_niter ?w0 \<longrightarrow> int k \<le> max (max_niter ?w0 + 1 - niter ?w0) 0"
       "e = None \<longrightarrow>
          calls w' = calls ?w0 @ task_calls (length (tasks ?w0)) k
          \<and> ((0 < max_niter ?w0 \<and> int k = max (max_niter ?w0 + 1 - niter ?w0) 0)
              \<or> strategy_generator ?w0 (gen_pos ?w0 + k) = None
              \<or> ex w' ''exit'' = Some True)"
    by blast
  have ne: "tasks w = [] \<and> (\<forall>s. ex s ''exit'' \<noteq> None) \<longrightarrow> e = None"
    using submit_loop_no_error [of ?w0 ex "nat (max_niter w) + 1" tc e w'] r by simp
  have "submit_tasks (nat (max_niter w) + 1) tc ex w = Some (e, w')
         \<and> int k \<le> max_niter w
         \<and> tasks w' = tasks w @ map (new_task tc w) [0..<k]
         \<and> gen_pos w' = gen_pos w + k
         \<and> (\<forall>i<k. strategy_generator w (gen_pos w + i) \<noteq> None)
         \<and> (\<forall>i. Suc i < k \<longrightarrow> ex (exit_state tc ?w0 i) ''exit'' = Some False)
         \<and> (tasks w = [] \<and> (\<forall>s. ex s ''exit'' \<noteq> None) \<longrightarrow> e = None)
         \<and> (e = None \<longrightarrow>
              calls w' = calls w @ task_calls (length (tasks w)) k
              \<and> (int k = max_niter w
                  \<or> strategy_generator w (gen_pos w + k) = None
                  \<or> ex w' ''exit'' = Some True))"
    using r k m ne by (simp add: submit_tasks_def new_task_niter)
  then show "\<exists>e w' k. submit_tasks (nat (max_niter w) + 1) tc ex w = Some (e, w')
         \<and> int k \<le> max_niter w
         \<and> tasks w' = tasks w @ map (new_task tc w) [0..<k]
         \<and> gen_pos w' = gen_pos w + k
         \<and> (\<forall>i<k. strategy_generator w (gen_pos w + i) \<noteq> None)
         \<and> (\<forall>i. Suc i < k \<longrightarrow> ex (exit_state tc ?w0 i) ''exit'' = Some False)
         \<and> (tasks w = [] \<and> (\<forall>s. ex s ''exit'' \<noteq> None) \<longrightarrow> e = None)
         \<and> (e = None \<longrightarrow>
              calls w' = calls w @ task_calls (length (tasks w)) k
              \<and> (int k = max_niter w
                  \<or> strategy_generator w (gen_pos w + k) = None
                  \<or> ex w' ''exit'' = Some True))"
    by blast
next
  let ?w0 = "w\<lparr>niter := 1\<rparr>"
  assume a: "max_niter w \<le> 0 \<and> tasks w = []
        \<and> (\<forall>i<n. strategy_generator w (gen_pos w + i) \<noteq> None)
        \<and> strategy_generator w (gen_pos w + n) = None
        \<and> (\<forall>s. ex s ''exit'' = Some False)"
  have "\<exists>w'. submit_loop (Suc n) tc ex ?w0 = Some (None, w')
          \<and> length (tasks w') = length (tasks ?w0) + n
          \<and> calls w' = calls ?w0 @ task_calls (length (tasks ?w0)) n"
    using a by (intro submit_loop_unbounded) simp_all
  then show "\<exists>w'. submit_tasks (n + 1) tc ex w = Some (None, w')
           \<and> length (tasks w') = n
           \<and> calls w' = calls w @ task_calls 0 n"
    using a by (simp add: submit_tasks_def)
qed

theorem submit_tasks_iterations_witness:
  "0 < max_niter iw_e4 \<and> tasks iw_e4 = [] \<and> (\<forall>s. exit_at_3 s ''exit'' \<noteq> None)
   \<and> (\<exists>e w' k. submit_tasks 6 task_of exit_at_3 iw_e4 = Some (e, w') \<and> int k \<le> 5)
   \<and> map_option (\<lambda>r. (fst r, length (tasks (snd r)), gen_pos (snd r), calls (snd r)))
        (submit_tasks 6 task_of exit_at_3 iw_e4)
       = Some (None, 3, 3, [Start 0, Wait 0, Start 1, Wait 1, Start 2, Wait 2])
   \<and> max_niter iw_two \<le> 0 \<and> tasks iw_two = []
   \<and> strategy_generator iw_two (gen_pos iw_two + 0) \<noteq> None
   \<and> strategy_generator iw_two (gen_pos iw_two + 1) \<noteq> None
   \<and> strategy_generator iw_two (gen_pos iw_two + 2) = None
   \<and> (\<forall>s. never_exit s ''exit'' = Some False)
   \<and> (\<exists>w'. submit_tasks 3 task_of never_exit iw_two = Some (None, w')
         \<and> length (tasks w') = 2
         \<and> calls w' = [Start 0, Wait 0, Start 1, Wait 1])"
proof -
  have a: "0 < max_niter iw_e4"
    by (simp add: iw_e4_def)
  have a': "nat (max_niter iw_e4) + 1 = 6" "max_niter iw_e4 = 5"
    by (simp_all add: iw_e4_def)
  have b: "max_niter iw_two \<le> 0 \<and> tasks iw_two = []
           \<and> (\<forall>i<2. strategy_generator iw_two (gen_pos iw_two + i) \<noteq> None)
           \<and> strategy_generator iw_two (gen_pos iw_two + 2) = None
           \<and> (\<forall>s. never_exit s ''exit'' = Some False)"
    by (simp add: iw_two_def iw_e4_def never_exit_def)
  have c: "calls iw_two = []" "task_calls 0 2 = [Start 0, Wait 0, Start 1, Wait 1]"
    "(2::nat) + 1 = 3"
    by (simp_all add: iw_two_def iw_e4_def task_calls_def upt_conv_Cons del: upt_Suc)
  have e4: "map_option (\<lambda>r. (fst r, length (tasks (snd r)), gen_pos (snd r), calls (snd r)))
        (submit_tasks 6 task_of exit_at_3 iw_e4)
       = Some (None, 3, 3, [Start 0, Wait 0, Start 1, Wait 1, Start 2, Wait 2])"
    by (simp add: submit_tasks_def submit_loop_numeral iteration_simps iw_e4_def exit_at_3_def)
  have "\<exists>e w' k. submit_tasks (nat (max_niter iw_e4) + 1) task_of exit_at_3 iw_e4 = Some (e, w')
          \<and> int k \<le> max_niter iw_e4"
    using submit_tasks_iterations [of iw_e4 task_of exit_at_3 0, THEN conjunct1, rule_format, OF a]
    by blast
  then have i1: "\<exists>e w' k. submit_tasks 6 task_of exit_at_3 iw_e4 = Some (e, w') \<and> int k \<le> 5"
    by (simp add: a')
  have "\<exists>w'. submit_tasks (2 + 1) task_of never_exit iw_two = Some (None, w')
         \<and> length (tasks w') = 2
         \<and> calls w' = calls iw_two @ task_calls 0 2"
    by (rule submit_tasks_iterations [of iw_two task_of never_exit 2, THEN conjunct2, rule_format, OF b])
  then have i2: "\<exists>w'. submit_tasks 3 task_of never_exit iw_two = Some (None, w')
         \<and> length (tasks w') = 2
         \<and> calls w' = [Start 0, Wait 0, Start 1, Wait 1]"
    unfolding c by simp
  have b': "strategy_generator iw_two (gen_pos iw_two + 0) \<noteq> None"
    "strategy_generator iw_two (gen_pos iw_two + 1) \<noteq> None"
    by (simp_all add: iw_two_def iw_e4_def)
  have a'': "tasks iw_e4 = []" "\<forall>s. exit_at_3 s ''exit'' \<noteq> None"
    by (simp_all add: iw_e4_def exit_at_3_def)
  show ?thesis
    using a a'' b b' e4 i1 i2 by blast
qed

end
